theory Spec2Isabelle
  imports Main "HOL-Library.Sublist" "HOL-Library.Multiset"
begin

section \<open>JavaScript values and strings\<close>

text \<open>
  The registry's answer is parsed JSON, and the program inspects it at run time
  (truthiness, \<^verbatim>\<open>typeof\<close>, property reads), so it is modelled as a JavaScript value.
  An object is the list of its own properties in insertion order. Numbers are
  integers here: the program only ever tests a number for truthiness and for its
  \<^verbatim>\<open>typeof\<close>, and prints the HTTP status. Strings are \<open>char list\<close>; the program's only
  case conversion is compared with the ASCII prefixes \<^verbatim>\<open>file:\<close> and \<^verbatim>\<open>link:\<close>, so
  \<open>toLowerCase\<close> maps the ASCII capitals and leaves every other character alone.
\<close>

datatype jsval =
    JUndefined
  | JNull
  | JBool bool
  | JNum int
  | JStr string
  | JArr "jsval list"
  | JObj "(string \<times> jsval) list"

datatype js_error = TypeError | Error string

fun truthy :: "jsval \<Rightarrow> bool" where
  "truthy JUndefined = False"
| "truthy JNull = False"
| "truthy (JBool b) = b"
| "truthy (JNum n) = (n \<noteq> 0)"
| "truthy (JStr s) = (s \<noteq> [])"
| "truthy (JArr _) = True"
| "truthy (JObj _) = True"

text \<open>\<^verbatim>\<open>v !== null && typeof v === 'object'\<close>: objects and arrays.\<close>

fun is_object :: "jsval \<Rightarrow> bool" where
  "is_object (JArr _) = True"
| "is_object (JObj _) = True"
| "is_object _ = False"

text \<open>
  \<^verbatim>\<open>v.k\<close> for the two property names the program reads, \<^verbatim>\<open>license\<close> and \<^verbatim>\<open>type\<close>,
  which no built-in prototype defines: a read from \<^verbatim>\<open>undefined\<close> or \<^verbatim>\<open>null\<close> throws a
  TypeError, an object answers with its own property, anything else with
  \<^verbatim>\<open>undefined\<close>.
\<close>

fun js_get :: "jsval \<Rightarrow> string \<Rightarrow> js_error + jsval" where
  "js_get JUndefined k = Inl TypeError"
| "js_get JNull k = Inl TypeError"
| "js_get (JObj ps) k = Inr (case map_of ps k of None \<Rightarrow> JUndefined | Some v \<Rightarrow> v)"
| "js_get _ k = Inr JUndefined"

definition lower_char :: "char \<Rightarrow> char" where
  "lower_char c =
     (case map_of (zip ''ABCDEFGHIJKLMNOPQRSTUVWXYZ'' ''abcdefghijklmnopqrstuvwxyz'') c of
        None \<Rightarrow> c
      | Some l \<Rightarrow> l)"

definition toLowerCase :: "string \<Rightarrow> string" where
  "toLowerCase s = map lower_char s"

definition startsWith :: "string \<Rightarrow> string \<Rightarrow> bool" where
  "startsWith s p \<longleftrightarrow> take (length p) s = p"

definition endsWith :: "string \<Rightarrow> string \<Rightarrow> bool" where
  "endsWith s p \<longleftrightarrow> length p \<le> length s \<and> drop (length s - length p) s = p"

text \<open>\<^verbatim>\<open>s.replace(p, '')\<close> with a string pattern: the first occurrence of \<open>p\<close> goes.\<close>

fun replace_first :: "string \<Rightarrow> string \<Rightarrow> string" where
  "replace_first p [] = []"
| "replace_first p (c # cs) =
     (if startsWith (c # cs) p then drop (length p) (c # cs)
      else c # replace_first p cs)"

text \<open>A non-negative integer in a template literal: its decimal digits.\<close>

fun string_of_nat :: "nat \<Rightarrow> string" where
  "string_of_nat n =
     (if n < 10 then [''0123456789'' ! n]
      else string_of_nat (n div 10) @ [''0123456789'' ! (n mod 10)])"

declare string_of_nat.simps [simp del]

section \<open>The environment: libraries, registry, clock\<close>

text \<open>
  The program calls libraries whose code is not part of the repository (\<^verbatim>\<open>semver\<close>,
  \<^verbatim>\<open>path\<close>, \<^verbatim>\<open>axios\<close>) and reads the system clock. They are parameters of the model:
  \<^item> \<open>semver_valid v\<close> is \<^verbatim>\<open>semver.valid(v)\<close> on a string: \<open>None\<close> for \<^verbatim>\<open>null\<close>;
  \<^item> \<open>semver_coerce v\<close> is \<^verbatim>\<open>semver.valid(semver.coerce(v))\<close>: the version string of
    the object \<^verbatim>\<open>semver.coerce\<close> builds, \<open>None\<close> when it builds none;
  \<^item> \<open>path_extname\<close> is \<^verbatim>\<open>path.extname\<close>;
  \<^item> \<open>toISOString t\<close> is \<^verbatim>\<open>new Date().toISOString()\<close> when the clock shows \<open>t\<close>;
  \<^item> \<open>registry k url\<close> is what \<^verbatim>\<open>axios.get(url)\<close> settles to when it is the \<open>k\<close>-th
    request of the process (counted from 0), and how many milliseconds it takes.
    The same URL may fail at one request and succeed at a later one.
\<close>

record http_response =
  status :: nat
  statusText :: string

datatype axios_outcome =
    Fulfilled jsval
  | Rejected "http_response option"

record env =
  semver_valid :: "string \<Rightarrow> string option"
  semver_coerce :: "string \<Rightarrow> string option"
  path_extname :: "string \<Rightarrow> string"
  toISOString :: "nat \<Rightarrow> string"
  registry :: "nat \<Rightarrow> string \<Rightarrow> axios_outcome \<times> nat"

text \<open>
  The state of one process: the cache kept on \<^verbatim>\<open>fetchLicenseForPackage.prototype\<close>
  (the function is compiled to an ordinary function, which has that slot), a clock
  in milliseconds, the requests sent so far with the time each was sent, and the
  files written. Every cache key contains \<^verbatim>\<open>@\<close>, so no key names a property that the
  cache object inherits, and a map is all there is to it. Console output is only
  ever written, never read, and is left out.
\<close>

record state =
  cache :: "string \<Rightarrow> jsval option"
  clock :: nat
  requests :: "(nat \<times> string) list"
  files :: "(string \<times> string) list"

definition init_state :: state where
  "init_state = \<lparr>cache = Map.empty, clock = 0, requests = [], files = []\<rparr>"

section \<open>The registry client\<close>

text \<open>
  \<open>sleep\<close> moves the clock on by \<open>ms\<close>, the least time the timer takes; its first
  argument is ignored, as in the source. \<open>axios_get\<close> logs the request with the time it
  is sent and moves the clock on by the time the request takes.
\<close>

definition sleep :: "string \<Rightarrow> nat \<Rightarrow> state \<Rightarrow> state" where
  "sleep explanation ms st = st\<lparr>clock := clock st + ms\<rparr>"

definition axios_get :: "env \<Rightarrow> state \<Rightarrow> string \<Rightarrow> axios_outcome \<times> state" where
  "axios_get e st url =
     (let (outcome, took) = registry e (length (requests st)) url
      in (outcome, st\<lparr>requests := requests st @ [(clock st, url)],
                       clock := clock st + took\<rparr>))"

text \<open>\<^verbatim>\<open>cache[cacheKey]\<close>: \<^verbatim>\<open>undefined\<close> for a key that was never written.\<close>

definition cache_read :: "(string \<Rightarrow> jsval option) \<Rightarrow> string \<Rightarrow> jsval" where
  "cache_read c k = (case c k of None \<Rightarrow> JUndefined | Some v \<Rightarrow> v)"

text \<open>What the \<^verbatim>\<open>try\<close> block can throw: the rejection of the request, or a TypeError.\<close>

datatype thrown = AxiosError "http_response option" | Thrown js_error

fun response_of :: "thrown \<Rightarrow> http_response option" where
  "response_of (AxiosError r) = r"
| "response_of (Thrown _) = None"

text \<open>The body of the \<^verbatim>\<open>try\<close> block, up to the cache write.\<close>

definition license_of_outcome :: "axios_outcome \<Rightarrow> thrown + jsval" where
  "license_of_outcome outcome =
     (case outcome of
        Rejected r \<Rightarrow> Inl (AxiosError r)
      | Fulfilled data \<Rightarrow>
          (case js_get data ''license'' of
             Inl err \<Rightarrow> Inl (Thrown err)
           | Inr l \<Rightarrow> Inr (if truthy l then l else JStr ''[BLANK]'')))"

text \<open>The \<^verbatim>\<open>catch\<close> block: \<^verbatim>\<open>response?.status\<close> of a missing response prints as \<^verbatim>\<open>undefined\<close>.\<close>

definition error_marker :: "thrown \<Rightarrow> string" where
  "error_marker err =
     ''[ERROR: ''
     @ (case response_of err of None \<Rightarrow> ''undefined'' | Some r \<Rightarrow> string_of_nat (status r))
     @ '': ''
     @ (case response_of err of None \<Rightarrow> ''undefined'' | Some r \<Rightarrow> statusText r)
     @ '']''"

definition is_local :: "string \<Rightarrow> bool" where
  "is_local packageVersion \<longleftrightarrow>
     startsWith (toLowerCase packageVersion) ''file:''
     \<or> startsWith (toLowerCase packageVersion) ''link:''"

definition cacheKey :: "string \<Rightarrow> string \<Rightarrow> string" where
  "cacheKey packageName packageVersion = packageName @ ''@'' @ packageVersion"

definition registryUrl :: "string \<Rightarrow> string \<Rightarrow> string" where
  "registryUrl packageName packageVersion =
     ''https://registry.npmjs.org/'' @ packageName @ ''/'' @ packageVersion"

definition fetchLicenseForPackage ::
  "env \<Rightarrow> state \<Rightarrow> string \<Rightarrow> string \<Rightarrow> jsval \<times> state" where
  "fetchLicenseForPackage e st packageName packageVersion =
     (let key = cacheKey packageName packageVersion in
      if truthy (cache_read (cache st) key) then (cache_read (cache st) key, st)
      else if is_local packageVersion then
        (let packageLicense = JStr (''[SKIPPED: '' @ packageVersion @ '']'')
         in (packageLicense, st\<lparr>cache := (cache st)(key \<mapsto> packageLicense)\<rparr>))
      else
        (let st1 = sleep ''Let's not DoS the npmjs.org registry'' 1001 st;
             (outcome, st2) = axios_get e st1 (registryUrl packageName packageVersion)
         in case license_of_outcome outcome of
              Inr packageLicense \<Rightarrow>
                (packageLicense, st2\<lparr>cache := (cache st2)(key \<mapsto> packageLicense)\<rparr>)
            | Inl err \<Rightarrow> (JStr (error_marker err), st2)))"

section \<open>Extraction\<close>

datatype PackageDotJsonDependencyType =
  Dependencies | DevDependencies | PeerDependencies | OptionalDependencies

fun type_name :: "PackageDotJsonDependencyType \<Rightarrow> string" where
  "type_name Dependencies = ''dependencies''"
| "type_name DevDependencies = ''devDependencies''"
| "type_name PeerDependencies = ''peerDependencies''"
| "type_name OptionalDependencies = ''optionalDependencies''"

text \<open>
  \<open>packageLicense\<close> is an optional property: \<open>None\<close> until it is assigned. At run time
  it holds whatever the registry client returned, so its type is \<open>jsval\<close>.
\<close>

record PackageDotJsonDependency =
  projectName :: string
  packageName :: string
  packageVersion :: string
  packageLicense :: "jsval option"

text \<open>
  One entry of the \<^verbatim>\<open>packageJsons\<close> directory: its name and, for a manifest, the parsed
  file. \<open>packageData m t\<close> is \<^verbatim>\<open>packageData[type]\<close>: \<open>None\<close> when the manifest has no
  such section, else the section's properties (package name, version specifier) in
  the order the file declares them. Both are strings, as the source's cast to
  \<^verbatim>\<open>Record<string, string>\<close> says. A directory that cannot be read and a file that
  is not a JSON object are outside the model.
\<close>

record manifest =
  filename :: string
  packageData :: "PackageDotJsonDependencyType \<Rightarrow> (string \<times> string) list option"

definition getCleanNpmPackageVersion :: "env \<Rightarrow> string \<Rightarrow> string" where
  "getCleanNpmPackageVersion e packageJsonVersion =
     (case semver_valid e packageJsonVersion of
        Some v \<Rightarrow>
          if v \<noteq> [] then v
          else (case semver_coerce e packageJsonVersion of
                  Some c \<Rightarrow> if c \<noteq> [] then c else packageJsonVersion
                | None \<Rightarrow> packageJsonVersion)
      | None \<Rightarrow>
          (case semver_coerce e packageJsonVersion of
             Some c \<Rightarrow> if c \<noteq> [] then c else packageJsonVersion
           | None \<Rightarrow> packageJsonVersion))"

text \<open>
  \<^verbatim>\<open>Object.entries\<close> lists the properties whose name is an array index (a canonical
  decimal numeral below 4294967295) first, in ascending numeric order, and the other
  properties after them in insertion order.
\<close>

definition digit_value :: "char \<Rightarrow> int option" where
  "digit_value c = map_of (zip ''0123456789'' [0, 1, 2, 3, 4, 5, 6, 7, 8, 9]) c"

definition is_digit :: "char \<Rightarrow> bool" where
  "is_digit c \<longleftrightarrow> digit_value c \<noteq> None"

definition int_of_digits :: "string \<Rightarrow> int" where
  "int_of_digits s = foldl (\<lambda>n c. 10 * n + the (digit_value c)) 0 s"

definition array_index :: "string \<Rightarrow> int option" where
  "array_index s =
     (if s \<noteq> [] \<and> list_all is_digit s \<and> (s = ''0'' \<or> hd s \<noteq> CHR ''0'')
         \<and> int_of_digits s < 4294967295
      then Some (int_of_digits s) else None)"

definition object_entries :: "(string \<times> 'a) list \<Rightarrow> (string \<times> 'a) list" where
  "object_entries ps =
     sort_key (\<lambda>p. the (array_index (fst p))) (filter (\<lambda>p. array_index (fst p) \<noteq> None) ps)
     @ filter (\<lambda>p. array_index (fst p) = None) ps"

text \<open>The inner loop of \<^verbatim>\<open>getDependencies\<close>: one push per entry.\<close>

fun push_entries ::
  "env \<Rightarrow> string \<Rightarrow> (string \<times> string) list \<Rightarrow> PackageDotJsonDependency list
   \<Rightarrow> PackageDotJsonDependency list" where
  "push_entries e fn [] allDependencies = allDependencies"
| "push_entries e fn ((name, version) # entries) allDependencies =
     push_entries e fn entries
       (allDependencies @
        [\<lparr>projectName = replace_first (path_extname e fn) fn,
          packageName = name,
          packageVersion = getCleanNpmPackageVersion e version,
          packageLicense = None\<rparr>])"

text \<open>The outer loop: a manifest without the section is skipped with a warning.\<close>

fun read_manifests ::
  "env \<Rightarrow> PackageDotJsonDependencyType \<Rightarrow> manifest list \<Rightarrow> PackageDotJsonDependency list
   \<Rightarrow> PackageDotJsonDependency list" where
  "read_manifests e t [] allDependencies = allDependencies"
| "read_manifests e t (m # ms) allDependencies =
     (case packageData m t of
        None \<Rightarrow> read_manifests e t ms allDependencies
      | Some packageDependencies \<Rightarrow>
          read_manifests e t ms
            (push_entries e (filename m) (object_entries packageDependencies) allDependencies))"

definition getDependencies ::
  "env \<Rightarrow> PackageDotJsonDependencyType \<Rightarrow> manifest list \<Rightarrow> PackageDotJsonDependency list" where
  "getDependencies e t dir =
     read_manifests e t (filter (\<lambda>m. endsWith (filename m) ''.json'') dir) []"

section \<open>The report\<close>

fun join_with :: "string \<Rightarrow> string list \<Rightarrow> string" where
  "join_with sep [] = []"
| "join_with sep [x] = x"
| "join_with sep (x # y # ys) = x @ sep @ join_with sep (y # ys)"

text \<open>
  \<^verbatim>\<open>Array.prototype.join\<close> prints \<^verbatim>\<open>undefined\<close> and \<^verbatim>\<open>null\<close> as the empty string and
  every other element by \<^verbatim>\<open>ToString\<close>.
\<close>

fun js_to_string :: "jsval \<Rightarrow> string" where
  "js_to_string JUndefined = ''undefined''"
| "js_to_string JNull = ''null''"
| "js_to_string (JBool b) = (if b then ''true'' else ''false'')"
| "js_to_string (JNum n) =
     (if n < 0 then ''-'' @ string_of_nat (nat (- n)) else string_of_nat (nat n))"
| "js_to_string (JStr s) = s"
| "js_to_string (JArr xs) =
     join_with '','' (map (\<lambda>x. if x = JUndefined \<or> x = JNull then [] else js_to_string x) xs)"
| "js_to_string (JObj _) = ''[object Object]''"

definition join_element :: "jsval \<Rightarrow> string" where
  "join_element x = (if x = JUndefined \<or> x = JNull then [] else js_to_string x)"

definition object_keys :: "PackageDotJsonDependency \<Rightarrow> string list" where
  "object_keys d =
     [''projectName'', ''packageName'', ''packageVersion'']
     @ (case packageLicense d of None \<Rightarrow> [] | Some _ \<Rightarrow> [''packageLicense''])"

definition object_values :: "PackageDotJsonDependency \<Rightarrow> jsval list" where
  "object_values d =
     [JStr (projectName d), JStr (packageName d), JStr (packageVersion d)]
     @ (case packageLicense d of None \<Rightarrow> [] | Some v \<Rightarrow> [v])"

text \<open>\<^verbatim>\<open>Object.keys(data[0])\<close> of an empty array is \<^verbatim>\<open>Object.keys(undefined)\<close>: a TypeError.\<close>

definition toCsv :: "PackageDotJsonDependency list \<Rightarrow> js_error + string" where
  "toCsv data =
     (case data of
        [] \<Rightarrow> Inl TypeError
      | first # _ \<Rightarrow>
          Inr (join_with '','' (object_keys first)
               @ [CHR 0x0A]
               @ join_with [CHR 0x0A]
                   (map (\<lambda>obj. join_with '','' (map join_element (object_values obj))) data)))"

definition filesafeTimestamp :: "env \<Rightarrow> state \<Rightarrow> string" where
  "filesafeTimestamp e st =
     map (\<lambda>c. if c = CHR '':'' then CHR ''.'' else c) (toISOString e (clock st))"

definition writeCsvFile ::
  "env \<Rightarrow> state \<Rightarrow> PackageDotJsonDependency list \<Rightarrow> PackageDotJsonDependencyType
   \<Rightarrow> (js_error + unit) \<times> state" where
  "writeCsvFile e st packages t =
     (case toCsv packages of
        Inl err \<Rightarrow> (Inl err, st)
      | Inr csvContent \<Rightarrow>
          (Inr (),
           st\<lparr>files := files st
                @ [(''.'' @ type_name t @ ''.'' @ filesafeTimestamp e st @ ''.csv'',
                    csvContent)]\<rparr>))"

section \<open>The resolution pipeline\<close>

text \<open>
  The body of the loop of \<^verbatim>\<open>checkDependencies\<close>: the lookup, the normalisation of a
  structured license (which throws when the object has no string \<^verbatim>\<open>type\<close>), and the
  progress line, whose \<^verbatim>\<open>packageLicense.startsWith\<close> throws a TypeError on a value
  that is not a string.
\<close>

definition normalize_license :: "jsval \<Rightarrow> js_error + jsval" where
  "normalize_license l =
     (if is_object l then
        (case js_get l ''type'' of
           Inr (JStr t) \<Rightarrow> Inr (JStr t)
         | _ \<Rightarrow> Inl (Error ''Unrecognized package license definition.''))
      else Inr l)"

definition resolve_package ::
  "env \<Rightarrow> state \<Rightarrow> PackageDotJsonDependency \<Rightarrow> (js_error + PackageDotJsonDependency) \<times> state"
  where
  "resolve_package e st pkg =
     (let (l, st1) = fetchLicenseForPackage e st (packageName pkg) (packageVersion pkg)
      in case normalize_license l of
           Inl err \<Rightarrow> (Inl err, st1)
         | Inr (JStr s) \<Rightarrow> (Inr (pkg\<lparr>packageLicense := Some (JStr s)\<rparr>), st1)
         | Inr _ \<Rightarrow> (Inl TypeError, st1))"

fun resolve_all ::
  "env \<Rightarrow> state \<Rightarrow> PackageDotJsonDependency list
   \<Rightarrow> (js_error + PackageDotJsonDependency list) \<times> state" where
  "resolve_all e st [] = (Inr [], st)"
| "resolve_all e st (pkg # pkgs) =
     (case resolve_package e st pkg of
        (Inl err, st1) \<Rightarrow> (Inl err, st1)
      | (Inr pkg', st1) \<Rightarrow>
          (case resolve_all e st1 pkgs of
             (Inl err, st2) \<Rightarrow> (Inl err, st2)
           | (Inr pkgs', st2) \<Rightarrow> (Inr (pkg' # pkgs'), st2)))"

definition checkDependencies ::
  "env \<Rightarrow> state \<Rightarrow> PackageDotJsonDependencyType \<Rightarrow> manifest list
   \<Rightarrow> (js_error + PackageDotJsonDependency list) \<times> state" where
  "checkDependencies e st t dir =
     (case resolve_all e st (getDependencies e t dir) of
        (Inl err, st1) \<Rightarrow> (Inl err, st1)
      | (Inr packages, st1) \<Rightarrow>
          (case writeCsvFile e st1 packages t of
             (Inl err, st2) \<Rightarrow> (Inl err, st2)
           | (Inr _, st2) \<Rightarrow> (Inr packages, st2)))"

definition init :: "env \<Rightarrow> state \<Rightarrow> manifest list \<Rightarrow> (js_error + unit) \<times> state" where
  "init e st dir =
     (case checkDependencies e st Dependencies dir of
        (Inl err, st1) \<Rightarrow> (Inl err, st1)
      | (Inr _, st1) \<Rightarrow>
          (case checkDependencies e st1 DevDependencies dir of
             (Inl err, st2) \<Rightarrow> (Inl err, st2)
           | (Inr _, st2) \<Rightarrow> (Inr (), st2)))"

text \<open>
  A stretch of a run as the registry client sees it: the lookups of the given
  (name, version) pairs one after the other, each from the state the one before
  left. The loop of \<open>checkDependencies\<close> threads the state in this way.
\<close>

fun lookups :: "env \<Rightarrow> state \<Rightarrow> (string \<times> string) list \<Rightarrow> state" where
  "lookups e st [] = st"
| "lookups e st ((name, version) # pairs) =
     lookups e (snd (fetchLicenseForPackage e st name version)) pairs"

section \<open>Sample inputs\<close>

text \<open>
  A sample environment for the examples below. Its library functions answer as the
  real ones do on the inputs the examples use: \<^verbatim>\<open>semver.valid\<close> accepts \<^verbatim>\<open>1.0.0\<close> and
  \<^verbatim>\<open>2.0.0\<close> as they are and answers \<^verbatim>\<open>1.2.3\<close> for \<^verbatim>\<open>1.2.3+build.5\<close>, whose build
  metadata it drops; \<^verbatim>\<open>semver.coerce\<close> takes the first \<^verbatim>\<open>x.y.z\<close>-like token, which
  is \<^verbatim>\<open>1.2.3\<close> in \<^verbatim>\<open>^1.2.3\<close> and in \<^verbatim>\<open>file:../foo-1.2.3\<close>; \<^verbatim>\<open>path.extname\<close> of
  \<^verbatim>\<open>name.json\<close> is \<^verbatim>\<open>.json\<close>. The registry is left open.
\<close>

definition demo_env :: "(nat \<Rightarrow> string \<Rightarrow> axios_outcome \<times> nat) \<Rightarrow> env" where
  "demo_env reg =
     \<lparr>semver_valid =
        (\<lambda>v. if v = ''1.0.0'' \<or> v = ''2.0.0'' then Some v
             else if v = ''1.2.3+build.5'' then Some ''1.2.3'' else None),
      semver_coerce =
        (\<lambda>v. if v = ''^1.2.3'' \<or> v = ''file:../foo-1.2.3'' then Some ''1.2.3'' else None),
      path_extname = (\<lambda>f. if endsWith f ''.json'' \<and> 5 < length f then ''.json'' else []),
      toISOString = (\<lambda>t. ''2024-01-01T00:00:00.000Z''),
      registry = reg\<rparr>"

text \<open>A registry that answers every request after 20 ms with the license \<open>l\<close>.\<close>

definition answer :: "jsval \<Rightarrow> nat \<Rightarrow> string \<Rightarrow> axios_outcome \<times> nat" where
  "answer l k url = (Fulfilled (JObj [(''name'', JStr ''left-pad''), (''license'', l)]), 20)"

text \<open>A registry that rejects every request with the given response.\<close>

definition reject :: "http_response option \<Rightarrow> nat \<Rightarrow> string \<Rightarrow> axios_outcome \<times> nat" where
  "reject r k url = (Rejected r, 5)"

text \<open>A registry whose first answer is a 503 and whose later answers are \<^verbatim>\<open>MIT\<close>.\<close>

definition flaky :: "nat \<Rightarrow> string \<Rightarrow> axios_outcome \<times> nat" where
  "flaky k url =
     (if k = 0 then (Rejected (Some \<lparr>status = 503, statusText = ''Service Unavailable''\<rparr>), 5)
      else (Fulfilled (JObj [(''license'', JStr ''MIT'')]), 20))"

text \<open>A directory entry with a \<^verbatim>\<open>dependencies\<close> section only.\<close>

definition one_manifest :: "string \<Rightarrow> (string \<times> string) list \<Rightarrow> manifest" where
  "one_manifest fn deps =
     \<lparr>filename = fn, packageData = (\<lambda>t. if t = Dependencies then Some deps else None)\<rparr>"

definition demo_dir :: "manifest list" where
  "demo_dir =
     [one_manifest ''proj-a.json'' [(''left-pad'', ''1.0.0'')],
      one_manifest ''notes.txt'' [(''ignored'', ''1.0.0'')],
      one_manifest ''proj-b.json'' [(''right-pad'', ''2.0.0'')]]"

definition left_pad :: PackageDotJsonDependency where
  "left_pad = \<lparr>projectName = ''proj-a'', packageName = ''left-pad'',
                packageVersion = ''1.0.0'', packageLicense = None\<rparr>"

definition right_pad :: PackageDotJsonDependency where
  "right_pad = \<lparr>projectName = ''proj-b'', packageName = ''right-pad'',
                 packageVersion = ''2.0.0'', packageLicense = None\<rparr>"

section \<open>The order of a report\<close>

text \<open>
  The records one manifest contributes to a report of kind \<open>t\<close>, in the order of
  \<^verbatim>\<open>Object.entries\<close>. The report's order, as C7 describes it, is these lists one after
  the other in the order of the directory; \<open>getDependencies\<close> is compared with that.
\<close>

definition manifest_records ::
  "env \<Rightarrow> PackageDotJsonDependencyType \<Rightarrow> manifest \<Rightarrow> PackageDotJsonDependency list" where
  "manifest_records e t m =
     (case packageData m t of
        None \<Rightarrow> []
      | Some deps \<Rightarrow>
          map (\<lambda>(name, version).
                 \<lparr>projectName = replace_first (path_extname e (filename m)) (filename m),
                  packageName = name,
                  packageVersion = getCleanNpmPackageVersion e version,
                  packageLicense = None\<rparr>)
              (object_entries deps))"

section \<open>Invariants of the state\<close>

text \<open>Every value in the cache is truthy.\<close>

definition cache_truthy :: "(string \<Rightarrow> jsval option) \<Rightarrow> bool" where
  "cache_truthy c \<longleftrightarrow> (\<forall>k l. c k = Some l \<longrightarrow> truthy l)"

text \<open>
  Each request was sent at least 1001 ms after the one before it, and none was sent
  later than the clock shows.
\<close>

definition spaced :: "state \<Rightarrow> bool" where
  "spaced st \<longleftrightarrow>
     successively (\<lambda>a b. fst a + 1001 \<le> fst b) (requests st)
     \<and> list_all (\<lambda>r. fst r \<le> clock st) (requests st)"

section \<open>Evaluation\<close>

lemmas string_defs = startsWith_def endsWith_def toLowerCase_def lower_char_def
  string_of_nat.simps

lemmas client_defs = fetchLicenseForPackage_def cacheKey_def cache_read_def is_local_def
  sleep_def axios_get_def registryUrl_def license_of_outcome_def error_marker_def Let_def

lemmas extraction_defs = getDependencies_def getCleanNpmPackageVersion_def object_entries_def
  array_index_def is_digit_def digit_value_def int_of_digits_def

lemmas pipeline_defs = resolve_package_def normalize_license_def checkDependencies_def
  writeCsvFile_def toCsv_def object_keys_def object_values_def join_element_def
  filesafeTimestamp_def init_def

lemmas demo_defs = demo_env_def answer_def reject_def flaky_def one_manifest_def demo_dir_def
  init_state_def left_pad_def right_pad_def

lemma demo_getDependencies:
  "getDependencies (demo_env reg) Dependencies demo_dir = [left_pad, right_pad]"
  by (simp add: demo_defs extraction_defs string_defs)

section \<open>The four outcomes of a lookup\<close>

lemma license_of_outcome_truthy: "license_of_outcome outcome = Inr l \<Longrightarrow> truthy l"
  by (auto simp: license_of_outcome_def split: axios_outcome.splits sum.splits if_splits)

lemma fetch_hit:
  "truthy (cache_read (cache st) (cacheKey n v)) \<Longrightarrow>
   fetchLicenseForPackage e st n v = (cache_read (cache st) (cacheKey n v), st)"
  by (simp add: fetchLicenseForPackage_def)

lemma fetch_skip:
  "\<not> truthy (cache_read (cache st) (cacheKey n v)) \<Longrightarrow> is_local v \<Longrightarrow>
   fetchLicenseForPackage e st n v =
     (JStr (''[SKIPPED: '' @ v @ '']''),
      st\<lparr>cache := (cache st)(cacheKey n v \<mapsto> JStr (''[SKIPPED: '' @ v @ '']''))\<rparr>)"
  by (simp add: fetchLicenseForPackage_def Let_def)

lemma fetch_fulfilled:
  "\<not> truthy (cache_read (cache st) (cacheKey n v)) \<Longrightarrow> \<not> is_local v \<Longrightarrow>
   license_of_outcome (fst (registry e (length (requests st)) (registryUrl n v))) = Inr l \<Longrightarrow>
   fetchLicenseForPackage e st n v =
     (l, st\<lparr>cache := (cache st)(cacheKey n v \<mapsto> l),
             clock := clock st + 1001 + snd (registry e (length (requests st)) (registryUrl n v)),
             requests := requests st @ [(clock st + 1001, registryUrl n v)]\<rparr>)"
  by (auto simp: fetchLicenseForPackage_def Let_def sleep_def axios_get_def split: prod.splits)

lemma fetch_failed:
  "\<not> truthy (cache_read (cache st) (cacheKey n v)) \<Longrightarrow> \<not> is_local v \<Longrightarrow>
   license_of_outcome (fst (registry e (length (requests st)) (registryUrl n v))) = Inl err \<Longrightarrow>
   fetchLicenseForPackage e st n v =
     (JStr (error_marker err),
      st\<lparr>clock := clock st + 1001 + snd (registry e (length (requests st)) (registryUrl n v)),
          requests := requests st @ [(clock st + 1001, registryUrl n v)]\<rparr>)"
  by (auto simp: fetchLicenseForPackage_def Let_def sleep_def axios_get_def split: prod.splits)

lemma error_marker_nonempty: "error_marker err \<noteq> []"
  by (simp add: error_marker_def)

lemma fetch_cases:
  obtains (hit) "truthy (cache_read (cache st) (cacheKey n v))"
  | (skip) "\<not> truthy (cache_read (cache st) (cacheKey n v))" "is_local v"
  | (fulfilled) l where "\<not> truthy (cache_read (cache st) (cacheKey n v))" "\<not> is_local v"
      "license_of_outcome (fst (registry e (length (requests st)) (registryUrl n v))) = Inr l"
  | (failed) err where "\<not> truthy (cache_read (cache st) (cacheKey n v))" "\<not> is_local v"
      "license_of_outcome (fst (registry e (length (requests st)) (registryUrl n v))) = Inl err"
  by (cases "license_of_outcome (fst (registry e (length (requests st)) (registryUrl n v)))") blast+

lemma fetch_truthy: "truthy (fst (fetchLicenseForPackage e st n v))"
  by (cases rule: fetch_cases [where st = st and n = n and v = v and e = e])
     (simp_all add: fetch_hit fetch_skip fetch_fulfilled fetch_failed
        license_of_outcome_truthy error_marker_nonempty)

lemma fetch_files: "files (snd (fetchLicenseForPackage e st n v)) = files st"
  by (cases rule: fetch_cases [where st = st and n = n and v = v and e = e])
     (simp_all add: fetch_hit fetch_skip fetch_fulfilled fetch_failed)

lemma cache_read_Some: "c k = Some l \<Longrightarrow> cache_read c k = l"
  by (simp add: cache_read_def)

lemma fetch_again:
  assumes "cache st (cacheKey n v) = Some l" and "truthy l"
  shows "fetchLicenseForPackage e st n v = (l, st)"
  using assms by (simp add: fetch_hit cache_read_Some)

lemma fetch_miss_requests:
  assumes "\<not> truthy (cache_read (cache st) (cacheKey n v))" and "\<not> is_local v"
  shows "requests (snd (fetchLicenseForPackage e st n v))
           = requests st @ [(clock st + 1001, registryUrl n v)]"
proof (cases "license_of_outcome (fst (registry e (length (requests st)) (registryUrl n v)))")
  case (Inl err)
  with assms show ?thesis by (simp add: fetch_failed)
next
  case (Inr l)
  with assms show ?thesis by (simp add: fetch_fulfilled)
qed

lemma fetch_served_state:
  assumes "truthy (cache_read (cache st) (cacheKey n v)) \<or> is_local v"
  shows "clock (snd (fetchLicenseForPackage e st n v)) = clock st
       \<and> requests (snd (fetchLicenseForPackage e st n v)) = requests st"
proof (cases "truthy (cache_read (cache st) (cacheKey n v))")
  case True
  then show ?thesis by (simp add: fetch_hit)
next
  case False
  with assms show ?thesis by (simp add: fetch_skip)
qed

lemma fetch_miss_clock:
  assumes "\<not> truthy (cache_read (cache st) (cacheKey n v))" and "\<not> is_local v"
  shows "clock (snd (fetchLicenseForPackage e st n v))
           = clock st + 1001 + snd (registry e (length (requests st)) (registryUrl n v))"
proof (cases "license_of_outcome (fst (registry e (length (requests st)) (registryUrl n v)))")
  case (Inl err)
  with assms show ?thesis by (simp add: fetch_failed)
next
  case (Inr l)
  with assms show ?thesis by (simp add: fetch_fulfilled)
qed

section \<open>The loop\<close>

lemma resolve_package_state:
  "snd (resolve_package e st p) = snd (fetchLicenseForPackage e st (packageName p) (packageVersion p))"
  by (simp add: resolve_package_def split: prod.splits sum.splits jsval.splits)

lemma resolve_package_files: "files (snd (resolve_package e st p)) = files st"
  by (simp add: resolve_package_state fetch_files)

lemma resolve_all_files: "files (snd (resolve_all e st ps)) = files st"
proof (induction ps arbitrary: st)
  case Nil
  show ?case by simp
next
  case (Cons p ps)
  have "files (snd (resolve_package e st p)) = files st"
    by (rule resolve_package_files)
  moreover have "files (snd (resolve_all e (snd (resolve_package e st p)) ps))
      = files (snd (resolve_package e st p))"
    by (rule Cons.IH)
  ultimately show ?case
    by (auto split: prod.splits sum.splits)
qed

lemma resolve_all_append:
  "resolve_all e st (xs @ ys) =
     (case resolve_all e st xs of
        (Inl err, st1) \<Rightarrow> (Inl err, st1)
      | (Inr xs', st1) \<Rightarrow>
          (case resolve_all e st1 ys of
             (Inl err, st2) \<Rightarrow> (Inl err, st2)
           | (Inr ys', st2) \<Rightarrow> (Inr (xs' @ ys'), st2)))"
  by (induction xs arbitrary: st) (auto split: prod.splits sum.splits)

lemma normalize_license_object:
  "is_object l \<Longrightarrow>
   normalize_license l =
     (case js_get l ''type'' of
        Inr (JStr t) \<Rightarrow> Inr (JStr t)
      | _ \<Rightarrow> Inl (Error ''Unrecognized package license definition.''))"
  by (simp add: normalize_license_def)

lemma resolve_package_string:
  assumes "fst (resolve_package e st p) = Inr p'"
  shows "\<exists>s. p' = p\<lparr>packageLicense := Some (JStr s)\<rparr> \<and>
             (s = [] \<longrightarrow>
                (\<exists>ps. fst (fetchLicenseForPackage e st (packageName p) (packageVersion p)) = JObj ps
                      \<and> map_of ps ''type'' = Some (JStr [])))"
proof -
  obtain l st1 where f: "fetchLicenseForPackage e st (packageName p) (packageVersion p) = (l, st1)"
    by (cases "fetchLicenseForPackage e st (packageName p) (packageVersion p)")
  have t: "truthy l"
    using fetch_truthy [of e st "packageName p" "packageVersion p"] f by simp
  show ?thesis
  proof (cases l)
    case (JObj ps)
    with assms f show ?thesis
      by (auto simp: resolve_package_def normalize_license_def
               split: sum.splits jsval.splits option.splits)
  next
    case (JStr s)
    with assms f t show ?thesis
      by (auto simp: resolve_package_def normalize_license_def)
  qed (use assms f in \<open>auto simp: resolve_package_def normalize_license_def\<close>)
qed

lemma resolve_all_strings:
  "fst (resolve_all e st ps) = Inr ps' \<Longrightarrow>
   list_all (\<lambda>d. \<exists>s. packageLicense d = Some (JStr s)) ps'"
proof (induction ps arbitrary: st ps')
  case Nil
  then show ?case by simp
next
  case (Cons p ps)
  obtain r st1 where rp: "resolve_package e st p = (r, st1)"
    by (cases "resolve_package e st p")
  with Cons.prems obtain p' where r: "r = Inr p'"
    by (cases r) auto
  obtain r2 st2 where ra: "resolve_all e st1 ps = (r2, st2)"
    by (cases "resolve_all e st1 ps")
  with Cons.prems rp r obtain ps2 where r2: "r2 = Inr ps2" and ps': "ps' = p' # ps2"
    by (cases r2) auto
  have "list_all (\<lambda>d. \<exists>s. packageLicense d = Some (JStr s)) ps2"
    using Cons.IH [of st1 ps2] ra r2 by simp
  moreover have "\<exists>s. packageLicense p' = Some (JStr s)"
    using resolve_package_string [of e st p p'] rp r by auto
  ultimately show ?case using ps' by simp
qed

lemma checkDependencies_Inr:
  "fst (checkDependencies e st t dir) = Inr packages \<Longrightarrow>
   fst (resolve_all e st (getDependencies e t dir)) = Inr packages"
  by (auto simp: checkDependencies_def writeCsvFile_def split: prod.splits sum.splits)

lemma resolve_package_string_result:
  assumes "fst (fetchLicenseForPackage e st (packageName p) (packageVersion p)) = JStr s"
  shows "resolve_package e st p
           = (Inr (p\<lparr>packageLicense := Some (JStr s)\<rparr>),
              snd (fetchLicenseForPackage e st (packageName p) (packageVersion p)))"
  using assms by (auto simp: resolve_package_def normalize_license_def split: prod.splits)

section \<open>Invariants along a run\<close>

lemma resolve_all_invariant:
  assumes step: "\<And>st n v. P st \<Longrightarrow> P (snd (fetchLicenseForPackage e st n v))"
      and "P st"
  shows "P (snd (resolve_all e st ps))"
  using \<open>P st\<close>
proof (induction ps arbitrary: st)
  case Nil
  then show ?case by simp
next
  case (Cons p ps)
  have "P (snd (resolve_package e st p))"
    using Cons.prems by (simp add: resolve_package_state step)
  moreover from this have "P (snd (resolve_all e (snd (resolve_package e st p)) ps))"
    by (rule Cons.IH)
  ultimately show ?case
    by (auto split: prod.splits sum.splits)
qed

lemma checkDependencies_invariant:
  assumes step: "\<And>st n v. P st \<Longrightarrow> P (snd (fetchLicenseForPackage e st n v))"
      and upd: "\<And>st f. P st \<Longrightarrow> P (st\<lparr>files := f\<rparr>)"
      and "P st"
  shows "P (snd (checkDependencies e st t dir))"
proof -
  have "P (snd (resolve_all e st (getDependencies e t dir)))"
    using step \<open>P st\<close> by (rule resolve_all_invariant)
  then show ?thesis
    by (auto simp: checkDependencies_def writeCsvFile_def upd split: prod.splits sum.splits)
qed

lemma init_invariant:
  assumes step: "\<And>st n v. P st \<Longrightarrow> P (snd (fetchLicenseForPackage e st n v))"
      and upd: "\<And>st f. P st \<Longrightarrow> P (st\<lparr>files := f\<rparr>)"
      and "P st"
  shows "P (snd (init e st dir))"
proof -
  have 1: "P (snd (checkDependencies e st Dependencies dir))"
    using step upd \<open>P st\<close> by (rule checkDependencies_invariant)
  have "P (snd (checkDependencies e (snd (checkDependencies e st Dependencies dir))
                  DevDependencies dir))"
    using step upd 1 by (rule checkDependencies_invariant)
  with 1 show ?thesis
    by (auto simp: init_def split: prod.splits sum.splits)
qed

section \<open>C1: the license of a record at the sink\<close>

text \<open>
  C1, as amended. Every record that \<open>checkDependencies\<close> hands to the sink has a
  string-typed \<open>packageLicense\<close>. For one package: when the loop body produces a
  record, it is the input record with a string license, and that string is empty
  only when the registry client's result was a structured object whose \<^verbatim>\<open>type\<close> is the
  empty string. (The claim as written also says that no exception escapes; the
  structured license without a string \<^verbatim>\<open>type\<close> throws, see C2.)
\<close>

theorem sink_license_is_string:
  "(fst (checkDependencies e st t dir) = Inr packages \<longrightarrow>
      list_all (\<lambda>d. \<exists>s. packageLicense d = Some (JStr s)) packages)
   \<and> (fst (resolve_package e st p) = Inr p' \<longrightarrow>
      (\<exists>s. p' = p\<lparr>packageLicense := Some (JStr s)\<rparr> \<and>
           (s = [] \<longrightarrow>
              (\<exists>ps. fst (fetchLicenseForPackage e st (packageName p) (packageVersion p)) = JObj ps
                    \<and> map_of ps ''type'' = Some (JStr [])))))"
proof (intro conjI impI)
  assume "fst (checkDependencies e st t dir) = Inr packages"
  then have "fst (resolve_all e st (getDependencies e t dir)) = Inr packages"
    by (rule checkDependencies_Inr)
  then show "list_all (\<lambda>d. \<exists>s. packageLicense d = Some (JStr s)) packages"
    by (rule resolve_all_strings)
next
  assume "fst (resolve_package e st p) = Inr p'"
  then show "\<exists>s. p' = p\<lparr>packageLicense := Some (JStr s)\<rparr> \<and>
           (s = [] \<longrightarrow>
              (\<exists>ps. fst (fetchLicenseForPackage e st (packageName p) (packageVersion p)) = JObj ps
                    \<and> map_of ps ''type'' = Some (JStr [])))"
    by (rule resolve_package_string)
qed

theorem sink_license_is_string_witness:
  "fst (checkDependencies (demo_env (answer (JStr ''MIT''))) init_state Dependencies demo_dir)
     = Inr [left_pad\<lparr>packageLicense := Some (JStr ''MIT'')\<rparr>,
            right_pad\<lparr>packageLicense := Some (JStr ''MIT'')\<rparr>]
   \<and> list_all (\<lambda>d. \<exists>s. packageLicense d = Some (JStr s))
        [left_pad\<lparr>packageLicense := Some (JStr ''MIT'')\<rparr>,
         right_pad\<lparr>packageLicense := Some (JStr ''MIT'')\<rparr>]
   \<and> fst (resolve_package (demo_env (answer (JStr ''MIT''))) init_state left_pad)
     = Inr (left_pad\<lparr>packageLicense := Some (JStr ''MIT'')\<rparr>)
   \<and> (\<exists>s. left_pad\<lparr>packageLicense := Some (JStr ''MIT'')\<rparr>
            = left_pad\<lparr>packageLicense := Some (JStr s)\<rparr> \<and> s \<noteq> [])"
proof -
  let ?e = "demo_env (answer (JStr ''MIT''))"
  let ?out = "[left_pad\<lparr>packageLicense := Some (JStr ''MIT'')\<rparr>,
               right_pad\<lparr>packageLicense := Some (JStr ''MIT'')\<rparr>]"
  have run: "fst (checkDependencies ?e init_state Dependencies demo_dir) = Inr ?out"
    by (simp add: demo_defs extraction_defs string_defs client_defs pipeline_defs)
  have one: "fst (resolve_package ?e init_state left_pad)
      = Inr (left_pad\<lparr>packageLicense := Some (JStr ''MIT'')\<rparr>)"
    by (simp add: demo_defs string_defs client_defs pipeline_defs)
  from sink_license_is_string
    [of ?e init_state Dependencies demo_dir ?out left_pad
        "left_pad\<lparr>packageLicense := Some (JStr ''MIT'')\<rparr>"]
    run one
  show ?thesis by auto
qed

text \<open>
  The claim as written fails twice: a license \<^verbatim>\<open>{"type": ""}\<close> reaches the sink as the
  empty string, and a license \<^verbatim>\<open>{"name": "Custom"}\<close> makes the run throw.
\<close>

theorem sink_license_counterexample:
  "fst (checkDependencies (demo_env (answer (JObj [(''type'', JStr [])]))) init_state
          Dependencies demo_dir)
     = Inr [left_pad\<lparr>packageLicense := Some (JStr [])\<rparr>,
            right_pad\<lparr>packageLicense := Some (JStr [])\<rparr>]
   \<and> fst (checkDependencies (demo_env (answer (JObj [(''name'', JStr ''Custom'')]))) init_state
          Dependencies demo_dir)
     = Inl (Error ''Unrecognized package license definition.'')"
  by (simp add: demo_defs extraction_defs string_defs client_defs pipeline_defs)

section \<open>C2: structured licenses\<close>

lemma resolve_package_unrecognized:
  assumes "is_object (fst (fetchLicenseForPackage e st (packageName p) (packageVersion p)))"
      and "\<not> (\<exists>s. js_get (fst (fetchLicenseForPackage e st (packageName p) (packageVersion p)))
                    ''type'' = Inr (JStr s))"
  shows "fst (resolve_package e st p) = Inl (Error ''Unrecognized package license definition.'')"
  using assms
  by (auto simp: resolve_package_def normalize_license_def
           split: prod.splits sum.splits jsval.splits)

lemma resolve_package_typed:
  assumes "is_object (fst (fetchLicenseForPackage e st (packageName p) (packageVersion p)))"
      and "js_get (fst (fetchLicenseForPackage e st (packageName p) (packageVersion p))) ''type''
             = Inr (JStr s)"
  shows "fst (resolve_package e st p) = Inr (p\<lparr>packageLicense := Some (JStr s)\<rparr>)"
  using assms
  by (auto simp: resolve_package_def normalize_license_def split: prod.splits)

lemma resolve_all_raises:
  assumes "resolve_all e st pre = (Inr pre', st1)"
      and "fst (resolve_package e st1 p) = Inl err"
  shows "fst (resolve_all e st (pre @ p # post)) = Inl err"
  using assms by (auto simp: resolve_all_append split: prod.splits sum.splits)

lemma checkDependencies_raises:
  assumes "fst (resolve_all e st (getDependencies e t dir)) = Inl err"
  shows "fst (checkDependencies e st t dir) = Inl err
         \<and> files (snd (checkDependencies e st t dir)) = files st"
proof -
  obtain st1 where r: "resolve_all e st (getDependencies e t dir) = (Inl err, st1)"
    using assms by (cases "resolve_all e st (getDependencies e t dir)") auto
  have "files st1 = files st"
    using resolve_all_files [of e st "getDependencies e t dir"] r by simp
  with r show ?thesis by (simp add: checkDependencies_def)
qed

text \<open>
  C2. Let \<open>p\<close> be a record of the extracted sequence, reached after the records before
  it resolved, and let the registry client's result for it be a structured object
  (an object or an array). If the object's \<^verbatim>\<open>type\<close> is a string, the loop body yields
  \<open>p\<close> with exactly that string as its license. Otherwise \<open>checkDependencies\<close> ends
  with the error \<^verbatim>\<open>Unrecognized package license definition.\<close>: it returns no records,
  and the files written are those written before the call, so no CSV file for this
  dependency kind.
\<close>

theorem structured_license:
  assumes "getDependencies e t dir = pre @ p # post"
      and "resolve_all e st pre = (Inr pre', st_p)"
      and "is_object (fst (fetchLicenseForPackage e st_p (packageName p) (packageVersion p)))"
  shows "case js_get (fst (fetchLicenseForPackage e st_p (packageName p) (packageVersion p))) ''type'' of
           Inr (JStr s) \<Rightarrow> fst (resolve_package e st_p p) = Inr (p\<lparr>packageLicense := Some (JStr s)\<rparr>)
         | _ \<Rightarrow> fst (checkDependencies e st t dir)
                  = Inl (Error ''Unrecognized package license definition.'')
                \<and> files (snd (checkDependencies e st t dir)) = files st"
proof -
  let ?l = "fst (fetchLicenseForPackage e st_p (packageName p) (packageVersion p))"
  show ?thesis
  proof (cases "\<exists>s. js_get ?l ''type'' = Inr (JStr s)")
    case True
    then obtain s where s: "js_get ?l ''type'' = Inr (JStr s)" by blast
    with assms(3) have "fst (resolve_package e st_p p) = Inr (p\<lparr>packageLicense := Some (JStr s)\<rparr>)"
      by (rule resolve_package_typed)
    with s show ?thesis by simp
  next
    case False
    then have no: "\<And>s. js_get ?l ''type'' \<noteq> Inr (JStr s)" by blast
    from assms(3) False have "fst (resolve_package e st_p p)
        = Inl (Error ''Unrecognized package license definition.'')"
      by (rule resolve_package_unrecognized)
    with assms(2) have "fst (resolve_all e st (pre @ p # post))
        = Inl (Error ''Unrecognized package license definition.'')"
      by (rule resolve_all_raises)
    with assms(1) have "fst (resolve_all e st (getDependencies e t dir))
        = Inl (Error ''Unrecognized package license definition.'')"
      by simp
    then have "fst (checkDependencies e st t dir)
          = Inl (Error ''Unrecognized package license definition.'')
        \<and> files (snd (checkDependencies e st t dir)) = files st"
      by (rule checkDependencies_raises)
    with no show ?thesis
      by (auto split: sum.splits jsval.splits)
  qed
qed

text \<open>
  Both branches on \<^verbatim>\<open>left-pad\<close>, the first record of the sample directory: the license
  \<^verbatim>\<open>{"type": "MIT"}\<close> resolves to \<^verbatim>\<open>MIT\<close>, and \<^verbatim>\<open>{"name": "Custom"}\<close> ends the run
  with no file written.
\<close>

theorem structured_license_witness:
  "fst (resolve_package (demo_env (answer (JObj [(''type'', JStr ''MIT'')]))) init_state left_pad)
     = Inr (left_pad\<lparr>packageLicense := Some (JStr ''MIT'')\<rparr>)
   \<and> fst (checkDependencies (demo_env (answer (JObj [(''name'', JStr ''Custom'')]))) init_state
            Dependencies demo_dir)
     = Inl (Error ''Unrecognized package license definition.'')
   \<and> files (snd (checkDependencies (demo_env (answer (JObj [(''name'', JStr ''Custom'')])))
                   init_state Dependencies demo_dir)) = []"
proof -
  let ?mit = "demo_env (answer (JObj [(''type'', JStr ''MIT'')]))"
  let ?custom = "demo_env (answer (JObj [(''name'', JStr ''Custom'')]))"
  have l1: "fst (fetchLicenseForPackage ?mit init_state (packageName left_pad)
                  (packageVersion left_pad)) = JObj [(''type'', JStr ''MIT'')]"
    by (simp add: demo_defs string_defs client_defs)
  have l2: "fst (fetchLicenseForPackage ?custom init_state (packageName left_pad)
                  (packageVersion left_pad)) = JObj [(''name'', JStr ''Custom'')]"
    by (simp add: demo_defs string_defs client_defs)
  have a: "fst (resolve_package ?mit init_state left_pad)
      = Inr (left_pad\<lparr>packageLicense := Some (JStr ''MIT'')\<rparr>)"
    using structured_license [where e = ?mit and st = init_state and t = Dependencies
        and dir = demo_dir and pre = "[]" and p = left_pad and post = "[right_pad]"
        and pre' = "[]" and st_p = init_state] l1
    by (simp add: demo_getDependencies)
  have b: "fst (checkDependencies ?custom init_state Dependencies demo_dir)
        = Inl (Error ''Unrecognized package license definition.'')
      \<and> files (snd (checkDependencies ?custom init_state Dependencies demo_dir)) = files init_state"
    using structured_license [where e = ?custom and st = init_state and t = Dependencies
        and dir = demo_dir and pre = "[]" and p = left_pad and post = "[right_pad]"
        and pre' = "[]" and st_p = init_state] l2
    by (simp add: demo_getDependencies)
  from a b show ?thesis by (simp add: init_state_def)
qed

section \<open>C3: the cache\<close>

lemma fetch_cache_other:
  assumes "k \<noteq> cacheKey n v"
  shows "cache (snd (fetchLicenseForPackage e st n v)) k = cache st k"
  using assms
  by (cases rule: fetch_cases [where st = st and n = n and v = v and e = e])
     (simp_all add: fetch_hit fetch_skip fetch_fulfilled fetch_failed)

lemma fetch_cache_kept:
  assumes "cache st k = Some l" and "truthy l"
  shows "cache (snd (fetchLicenseForPackage e st n v)) k = Some l"
proof (cases "k = cacheKey n v")
  case True
  with assms have "truthy (cache_read (cache st) (cacheKey n v))"
    by (simp add: cache_read_def)
  with assms show ?thesis by (simp add: fetch_hit)
next
  case False
  with assms show ?thesis by (simp add: fetch_cache_other)
qed

lemma lookups_cache_kept:
  "cache st k = Some l \<Longrightarrow> truthy l \<Longrightarrow> cache (lookups e st pairs) k = Some l"
proof (induction pairs arbitrary: st)
  case Nil
  then show ?case by simp
next
  case (Cons p pairs)
  obtain n v where p: "p = (n, v)" by (cases p)
  have "cache (snd (fetchLicenseForPackage e st n v)) k = Some l"
    using Cons.prems by (rule fetch_cache_kept)
  then have "cache (lookups e (snd (fetchLicenseForPackage e st n v)) pairs) k = Some l"
    using Cons.prems(2) by (rule Cons.IH)
  with p show ?case by simp
qed

lemma lookups_cache_other:
  "list_all (\<lambda>p. cacheKey (fst p) (snd p) \<noteq> k) pairs \<Longrightarrow>
   cache (lookups e st pairs) k = cache st k"
proof (induction pairs arbitrary: st)
  case Nil
  then show ?case by simp
next
  case (Cons p pairs)
  obtain n v where p: "p = (n, v)" by (cases p)
  with Cons.prems have ne: "k \<noteq> cacheKey n v"
    and rest: "list_all (\<lambda>p. cacheKey (fst p) (snd p) \<noteq> k) pairs"
    by auto
  have "cache (lookups e (snd (fetchLicenseForPackage e st n v)) pairs) k
      = cache (snd (fetchLicenseForPackage e st n v)) k"
    using rest by (rule Cons.IH)
  also have "\<dots> = cache st k"
    using ne by (rule fetch_cache_other)
  finally show ?case using p by simp
qed

lemma resolve_all_lookups:
  "fst (resolve_all e st ps) = Inr ps' \<Longrightarrow>
   snd (resolve_all e st ps) = lookups e st (map (\<lambda>d. (packageName d, packageVersion d)) ps)"
proof (induction ps arbitrary: st ps')
  case Nil
  then show ?case by simp
next
  case (Cons p ps)
  obtain r st1 where rp: "resolve_package e st p = (r, st1)"
    by (cases "resolve_package e st p")
  with Cons.prems obtain p' where r: "r = Inr p'"
    by (cases r) auto
  obtain r2 st2 where ra: "resolve_all e st1 ps = (r2, st2)"
    by (cases "resolve_all e st1 ps")
  with Cons.prems rp r obtain ps2 where r2: "r2 = Inr ps2"
    by (cases r2) auto
  have st1: "st1 = snd (fetchLicenseForPackage e st (packageName p) (packageVersion p))"
    using resolve_package_state [of e st p] rp by simp
  have "st2 = lookups e st1 (map (\<lambda>d. (packageName d, packageVersion d)) ps)"
    using Cons.IH [of st1 ps2] ra r2 by simp
  with rp r ra r2 st1 show ?case by simp
qed

lemma cacheKey_same_name: "cacheKey n v = cacheKey n v' \<longleftrightarrow> v = v'"
  by (simp add: cacheKey_def)

lemma cacheKey_same_version: "cacheKey n v = cacheKey n' v \<longleftrightarrow> n = n'"
  by (simp add: cacheKey_def)

lemma cacheKey_inject:
  assumes "CHR ''@'' \<notin> set v" and "CHR ''@'' \<notin> set v'"
  shows "cacheKey n v = cacheKey n' v' \<longleftrightarrow> n = n' \<and> v = v'"
proof
  assume eq: "cacheKey n v = cacheKey n' v'"
  then have "n @ CHR ''@'' # v = n' @ CHR ''@'' # v'"
    by (simp add: cacheKey_def)
  then show "n = n' \<and> v = v'"
    using assms by (auto simp: append_eq_append_conv2 append_eq_Cons_conv Cons_eq_append_conv)
qed simp

text \<open>
  C3. Resolve a pair, then any lookups whatever, then the same pair again. If the
  first resolve ended in the \<^verbatim>\<open>catch\<close> block (the lookup reached the network and the
  request failed), its result is the error marker and the cache is as it was; the
  later resolve then sends the request again, after its own delay, unless one of
  the lookups in between stored a value under the pair's key. In every other case
  (cache hit, skip, successful answer) the result is in the cache under the pair's
  key, the first resolve sent at most one request, the entry is still there after
  the lookups in between, and the later resolve returns the same value and leaves
  the state as it is: no request, no delay. The key tells versions of one package
  apart and packages of one version apart, and any two pairs whose versions have
  no \<^verbatim>\<open>@\<close> in them.
\<close>

theorem cache_idempotence:
  assumes "fetchLicenseForPackage e st n v = (l1, st1)"
      and "lookups e st1 between = st2"
      and "fetchLicenseForPackage e st2 n v = (l3, st3)"
  shows "(if \<not> truthy (cache_read (cache st) (cacheKey n v)) \<and> \<not> is_local v
            \<and> isl (license_of_outcome (fst (registry e (length (requests st)) (registryUrl n v))))
          then l1 = JStr (error_marker
                     (projl (license_of_outcome
                        (fst (registry e (length (requests st)) (registryUrl n v))))))
               \<and> cache st1 = cache st
               \<and> requests st1 = requests st @ [(clock st + 1001, registryUrl n v)]
               \<and> (list_all (\<lambda>p. cacheKey (fst p) (snd p) \<noteq> cacheKey n v) between \<longrightarrow>
                    requests st3 = requests st2 @ [(clock st2 + 1001, registryUrl n v)])
          else cache st1 (cacheKey n v) = Some l1
               \<and> length (requests st1) \<le> length (requests st) + 1
               \<and> cache st2 (cacheKey n v) = Some l1
               \<and> l3 = l1 \<and> st3 = st2)
       \<and> (cacheKey n v = cacheKey n v' \<longleftrightarrow> v = v')
       \<and> (cacheKey n v = cacheKey n' v \<longleftrightarrow> n = n')
       \<and> (CHR ''@'' \<notin> set v \<and> CHR ''@'' \<notin> set v' \<longrightarrow>
            (cacheKey n v = cacheKey n' v' \<longleftrightarrow> n = n' \<and> v = v'))"
proof -
  let ?key = "cacheKey n v"
  let ?url = "registryUrl n v"
  let ?out = "license_of_outcome (fst (registry e (length (requests st)) ?url))"
  have cached: "cache st2 ?key = Some l1 \<and> l3 = l1 \<and> st3 = st2"
    if c: "cache st1 ?key = Some l1" and t: "truthy l1"
  proof -
    from c t have "cache (lookups e st1 between) ?key = Some l1"
      by (rule lookups_cache_kept)
    with assms(2) have c2: "cache st2 ?key = Some l1" by simp
    then have "fetchLicenseForPackage e st2 n v = (l1, st2)"
      using t by (rule fetch_again)
    with assms(3) c2 show ?thesis by simp
  qed
  have main: "if \<not> truthy (cache_read (cache st) ?key) \<and> \<not> is_local v \<and> isl ?out
      then l1 = JStr (error_marker (projl ?out))
           \<and> cache st1 = cache st
           \<and> requests st1 = requests st @ [(clock st + 1001, ?url)]
           \<and> (list_all (\<lambda>p. cacheKey (fst p) (snd p) \<noteq> ?key) between \<longrightarrow>
                requests st3 = requests st2 @ [(clock st2 + 1001, ?url)])
      else cache st1 ?key = Some l1
           \<and> length (requests st1) \<le> length (requests st) + 1
           \<and> cache st2 ?key = Some l1
           \<and> l3 = l1 \<and> st3 = st2"
  proof (cases rule: fetch_cases [where st = st and n = n and v = v and e = e])
    case hit
    with assms(1) have 1: "l1 = cache_read (cache st) ?key" "st1 = st"
      by (auto simp: fetch_hit)
    with hit have c: "cache st1 ?key = Some l1" "truthy l1"
      by (auto simp: cache_read_def split: option.splits)
    then have "cache st2 ?key = Some l1 \<and> l3 = l1 \<and> st3 = st2"
      by (rule cached)
    with hit 1 c show ?thesis by simp
  next
    case skip
    with assms(1) have 1: "l1 = JStr (''[SKIPPED: '' @ v @ '']'')"
      "st1 = st\<lparr>cache := (cache st)(?key \<mapsto> l1)\<rparr>"
      by (auto simp: fetch_skip)
    then have c: "cache st1 ?key = Some l1" "truthy l1"
      by simp_all
    then have "cache st2 ?key = Some l1 \<and> l3 = l1 \<and> st3 = st2"
      by (rule cached)
    with skip 1 c show ?thesis by simp
  next
    case (fulfilled l)
    with assms(1) have 1: "l1 = l"
      "st1 = st\<lparr>cache := (cache st)(?key \<mapsto> l),
          clock := clock st + 1001 + snd (registry e (length (requests st)) ?url),
          requests := requests st @ [(clock st + 1001, ?url)]\<rparr>"
      by (auto simp: fetch_fulfilled)
    from fulfilled(3) have "truthy l" by (rule license_of_outcome_truthy)
    with 1 have c: "cache st1 ?key = Some l1" "truthy l1"
      by simp_all
    then have "cache st2 ?key = Some l1 \<and> l3 = l1 \<and> st3 = st2"
      by (rule cached)
    with fulfilled 1 c show ?thesis by simp
  next
    case (failed err)
    with assms(1) have 1: "l1 = JStr (error_marker err)"
      "st1 = st\<lparr>clock := clock st + 1001 + snd (registry e (length (requests st)) ?url),
          requests := requests st @ [(clock st + 1001, ?url)]\<rparr>"
      by (auto simp: fetch_failed)
    then have same: "cache st1 = cache st" by simp
    have retry: "requests st3 = requests st2 @ [(clock st2 + 1001, ?url)]"
      if "list_all (\<lambda>p. cacheKey (fst p) (snd p) \<noteq> ?key) between"
    proof -
      from that have "cache (lookups e st1 between) ?key = cache st1 ?key"
        by (rule lookups_cache_other)
      with assms(2) same have "cache st2 ?key = cache st ?key" by simp
      with failed(1) have "\<not> truthy (cache_read (cache st2) ?key)"
        by (simp add: cache_read_def)
      then have "requests (snd (fetchLicenseForPackage e st2 n v))
          = requests st2 @ [(clock st2 + 1001, ?url)]"
        using failed(2) by (rule fetch_miss_requests)
      with assms(3) show ?thesis by simp
    qed
    with failed 1 same show ?thesis by simp
  qed
  from main show ?thesis
    using cacheKey_same_name [of n v v'] cacheKey_same_version [of n v n']
      cacheKey_inject [of v v' n n']
    by blast
qed

text \<open>
  A witness for each branch, with another lookup in between. With a registry that
  answers \<^verbatim>\<open>MIT\<close>: \<^verbatim>\<open>left-pad@1.0.0\<close>, then \<^verbatim>\<open>right-pad@2.0.0\<close>, then \<^verbatim>\<open>left-pad@1.0.0\<close>
  again, which is served from the cache, so two requests in all. With a registry
  whose first answer is a 503: \<^verbatim>\<open>left-pad@1.0.0\<close> yields the error marker,
  \<^verbatim>\<open>left-pad@2.0.0\<close> is resolved and cached under its own key, and \<^verbatim>\<open>left-pad@1.0.0\<close>
  is then requested again.
\<close>

theorem cache_idempotence_witness:
  "fst (fetchLicenseForPackage (demo_env (answer (JStr ''MIT'')))
         (lookups (demo_env (answer (JStr ''MIT'')))
            (snd (fetchLicenseForPackage (demo_env (answer (JStr ''MIT''))) init_state
                    ''left-pad'' ''1.0.0''))
            [(''right-pad'', ''2.0.0'')])
         ''left-pad'' ''1.0.0'') = JStr ''MIT''
   \<and> requests (snd (fetchLicenseForPackage (demo_env (answer (JStr ''MIT'')))
         (lookups (demo_env (answer (JStr ''MIT'')))
            (snd (fetchLicenseForPackage (demo_env (answer (JStr ''MIT''))) init_state
                    ''left-pad'' ''1.0.0''))
            [(''right-pad'', ''2.0.0'')])
         ''left-pad'' ''1.0.0''))
       = [(1001, ''https://registry.npmjs.org/left-pad/1.0.0''),
          (2022, ''https://registry.npmjs.org/right-pad/2.0.0'')]
   \<and> fst (fetchLicenseForPackage (demo_env flaky) init_state ''left-pad'' ''1.0.0'')
       = JStr ''[ERROR: 503: Service Unavailable]''
   \<and> requests (snd (fetchLicenseForPackage (demo_env flaky)
         (lookups (demo_env flaky)
            (snd (fetchLicenseForPackage (demo_env flaky) init_state ''left-pad'' ''1.0.0''))
            [(''left-pad'', ''2.0.0'')])
         ''left-pad'' ''1.0.0''))
       = [(1001, ''https://registry.npmjs.org/left-pad/1.0.0''),
          (2007, ''https://registry.npmjs.org/left-pad/2.0.0''),
          (3028, ''https://registry.npmjs.org/left-pad/1.0.0'')]"
proof -
  let ?ok = "demo_env (answer (JStr ''MIT''))"
  let ?s1 = "snd (fetchLicenseForPackage ?ok init_state ''left-pad'' ''1.0.0'')"
  let ?s2 = "lookups ?ok ?s1 [(''right-pad'', ''2.0.0'')]"
  let ?f1 = "snd (fetchLicenseForPackage (demo_env flaky) init_state ''left-pad'' ''1.0.0'')"
  let ?f2 = "lookups (demo_env flaky) ?f1 [(''left-pad'', ''2.0.0'')]"
  have ok1: "fst (fetchLicenseForPackage ?ok init_state ''left-pad'' ''1.0.0'') = JStr ''MIT''"
    and ok2r: "requests ?s2 = [(1001, ''https://registry.npmjs.org/left-pad/1.0.0''),
                              (2022, ''https://registry.npmjs.org/right-pad/2.0.0'')]"
    by (simp_all add: demo_defs string_defs client_defs)
  have okc: "\<not> isl (license_of_outcome (fst (registry ?ok (length (requests init_state))
                 (registryUrl ''left-pad'' ''1.0.0''))))"
    by (simp add: demo_defs client_defs)
  have fl1: "fst (fetchLicenseForPackage (demo_env flaky) init_state ''left-pad'' ''1.0.0'')
      = JStr ''[ERROR: 503: Service Unavailable]''"
    and fl2r: "requests ?f2 = [(1001, ''https://registry.npmjs.org/left-pad/1.0.0''),
                               (2007, ''https://registry.npmjs.org/left-pad/2.0.0'')]"
    and fl2c: "clock ?f2 = 2027"
    by (simp_all add: demo_defs string_defs client_defs)
  have flc: "\<not> truthy (cache_read (cache init_state) (cacheKey ''left-pad'' ''1.0.0''))
      \<and> \<not> is_local ''1.0.0''
      \<and> isl (license_of_outcome (fst (registry (demo_env flaky) (length (requests init_state))
                 (registryUrl ''left-pad'' ''1.0.0''))))"
    by (simp add: demo_defs string_defs client_defs)
  have other: "list_all (\<lambda>p. cacheKey (fst p) (snd p) \<noteq> cacheKey ''left-pad'' ''1.0.0'')
      [(''left-pad'', ''2.0.0'')]"
    by (simp add: cacheKey_def)
  have a: "fst (fetchLicenseForPackage ?ok ?s2 ''left-pad'' ''1.0.0'') = JStr ''MIT''
      \<and> snd (fetchLicenseForPackage ?ok ?s2 ''left-pad'' ''1.0.0'') = ?s2"
    using cache_idempotence [where e = ?ok and st = init_state and n = "''left-pad''"
        and v = "''1.0.0''" and between = "[(''right-pad'', ''2.0.0'')]",
        OF surjective_pairing refl surjective_pairing] okc ok1
    by simp
  have b: "requests (snd (fetchLicenseForPackage (demo_env flaky) ?f2 ''left-pad'' ''1.0.0''))
      = requests ?f2 @ [(clock ?f2 + 1001, registryUrl ''left-pad'' ''1.0.0'')]"
    using cache_idempotence [where e = "demo_env flaky" and st = init_state
        and n = "''left-pad''" and v = "''1.0.0''" and between = "[(''left-pad'', ''2.0.0'')]",
        OF surjective_pairing refl surjective_pairing] flc other
    by simp
  from a ok2r fl1 b fl2r fl2c show ?thesis
    by (simp add: registryUrl_def)
qed

section \<open>C4: local and linked specifiers\<close>

lemma local_specifier_skipped:
  assumes "is_local v" and "cache st (cacheKey n v) = None"
  shows "fetchLicenseForPackage e st n v
           = (JStr (''[SKIPPED: '' @ v @ '']''),
              st\<lparr>cache := (cache st)(cacheKey n v \<mapsto> JStr (''[SKIPPED: '' @ v @ '']''))\<rparr>)"
  using assms by (simp add: fetch_skip cache_read_def)

text \<open>
  C4 does not hold on the code. The registry client does skip a specifier that
  starts with \<^verbatim>\<open>file:\<close> or \<^verbatim>\<open>link:\<close> (lemma \<open>local_specifier_skipped\<close>), but it is handed
  the normalised version, and \<open>getCleanNpmPackageVersion\<close> passes every specifier
  that \<^verbatim>\<open>semver.valid\<close> rejects to \<^verbatim>\<open>semver.coerce\<close>, local ones included. For the
  dependency \<^verbatim>\<open>"foo": "file:../foo-1.2.3"\<close> coercion finds \<^verbatim>\<open>1.2.3\<close>, so the client
  never sees the \<^verbatim>\<open>file:\<close> prefix: it waits, asks the registry for \<^verbatim>\<open>foo/1.2.3\<close> and
  reports that answer. The dependency \<^verbatim>\<open>"foo": "file:../foo"\<close>, where coercion finds
  nothing, is skipped without a request.
\<close>

theorem local_specifier_coerced:
  "getCleanNpmPackageVersion (demo_env (answer (JStr ''MIT''))) ''file:../foo-1.2.3'' = ''1.2.3''
   \<and> fst (checkDependencies (demo_env (answer (JStr ''MIT''))) init_state Dependencies
            [one_manifest ''app.json'' [(''foo'', ''file:../foo-1.2.3'')]])
     = Inr [\<lparr>projectName = ''app'', packageName = ''foo'', packageVersion = ''1.2.3'',
             packageLicense = Some (JStr ''MIT'')\<rparr>]
   \<and> requests (snd (checkDependencies (demo_env (answer (JStr ''MIT''))) init_state Dependencies
                       [one_manifest ''app.json'' [(''foo'', ''file:../foo-1.2.3'')]]))
     = [(1001, ''https://registry.npmjs.org/foo/1.2.3'')]
   \<and> fst (checkDependencies (demo_env (answer (JStr ''MIT''))) init_state Dependencies
            [one_manifest ''app.json'' [(''foo'', ''file:../foo'')]])
     = Inr [\<lparr>projectName = ''app'', packageName = ''foo'', packageVersion = ''file:../foo'',
             packageLicense = Some (JStr ''[SKIPPED: file:../foo]'')\<rparr>]
   \<and> requests (snd (checkDependencies (demo_env (answer (JStr ''MIT''))) init_state Dependencies
                       [one_manifest ''app.json'' [(''foo'', ''file:../foo'')]]))
     = []"
  by (simp add: demo_defs extraction_defs string_defs client_defs pipeline_defs)

section \<open>C5: a failed request is a value\<close>

text \<open>
  C5. \<open>fetchLicenseForPackage\<close> has no error result: every path of the source ends in
  a \<^verbatim>\<open>return\<close>, and whatever the \<^verbatim>\<open>try\<close> block throws is caught. When the lookup
  reaches the network and the request is rejected, the result is the string
  \<^verbatim>\<open>[ERROR: <status>: <statusText>]\<close>, with \<^verbatim>\<open>undefined\<close> in both places when the
  rejection carries no response. The loop body then stores that string in the
  record and the loop goes on with the records after it.
\<close>

theorem failed_request_is_marker:
  assumes "\<not> truthy (cache_read (cache st) (cacheKey (packageName p) (packageVersion p)))"
      and "\<not> is_local (packageVersion p)"
      and "fst (registry e (length (requests st)) (registryUrl (packageName p) (packageVersion p)))
             = Rejected r"
      and "marker = ''[ERROR: ''
             @ (case r of None \<Rightarrow> ''undefined'' | Some x \<Rightarrow> string_of_nat (status x)) @ '': ''
             @ (case r of None \<Rightarrow> ''undefined'' | Some x \<Rightarrow> statusText x) @ '']''"
  shows "fst (fetchLicenseForPackage e st (packageName p) (packageVersion p)) = JStr marker
       \<and> resolve_all e st (p # pkgs)
         = (case resolve_all e
                  (snd (fetchLicenseForPackage e st (packageName p) (packageVersion p))) pkgs of
              (Inl err, st2) \<Rightarrow> (Inl err, st2)
            | (Inr pkgs', st2) \<Rightarrow> (Inr (p\<lparr>packageLicense := Some (JStr marker)\<rparr> # pkgs'), st2))"
proof -
  have "license_of_outcome
          (fst (registry e (length (requests st)) (registryUrl (packageName p) (packageVersion p))))
        = Inl (AxiosError r)"
    using assms(3) by (simp add: license_of_outcome_def)
  with assms(1,2)
  have "fst (fetchLicenseForPackage e st (packageName p) (packageVersion p))
      = JStr (error_marker (AxiosError r))"
    by (simp add: fetch_failed)
  moreover have "error_marker (AxiosError r) = marker"
    using assms(4) by (simp add: error_marker_def)
  ultimately have f: "fst (fetchLicenseForPackage e st (packageName p) (packageVersion p))
      = JStr marker"
    by simp
  then have "resolve_package e st p
      = (Inr (p\<lparr>packageLicense := Some (JStr marker)\<rparr>),
         snd (fetchLicenseForPackage e st (packageName p) (packageVersion p)))"
    by (rule resolve_package_string_result)
  with f show ?thesis by simp
qed

text \<open>
  In the sample directory with a registry whose first answer is a 503: \<^verbatim>\<open>left-pad\<close>
  gets the error marker, and \<^verbatim>\<open>right-pad\<close>, next in the sequence, is still looked up
  and resolved.
\<close>

theorem failed_request_is_marker_witness:
  "fst (fetchLicenseForPackage (demo_env flaky) init_state ''left-pad'' ''1.0.0'')
     = JStr ''[ERROR: 503: Service Unavailable]''
   \<and> fst (fetchLicenseForPackage (demo_env (reject None)) init_state ''left-pad'' ''1.0.0'')
     = JStr ''[ERROR: undefined: undefined]''
   \<and> fst (resolve_all (demo_env flaky) init_state [left_pad, right_pad])
     = Inr [left_pad\<lparr>packageLicense := Some (JStr ''[ERROR: 503: Service Unavailable]'')\<rparr>,
            right_pad\<lparr>packageLicense := Some (JStr ''MIT'')\<rparr>]"
proof -
  let ?r = "Some \<lparr>status = 503, statusText = ''Service Unavailable''\<rparr>"
  have pre: "\<not> truthy (cache_read (cache init_state)
                 (cacheKey (packageName left_pad) (packageVersion left_pad)))"
    "\<not> is_local (packageVersion left_pad)"
    by (simp_all add: demo_defs string_defs client_defs)
  have rej: "fst (registry (demo_env flaky) (length (requests init_state))
                (registryUrl (packageName left_pad) (packageVersion left_pad))) = Rejected ?r"
    by (simp add: demo_defs)
  have rej': "fst (registry (demo_env (reject None)) (length (requests init_state))
                (registryUrl (packageName left_pad) (packageVersion left_pad))) = Rejected None"
    by (simp add: demo_defs)
  have rest: "fst (resolve_all (demo_env flaky)
                (snd (fetchLicenseForPackage (demo_env flaky) init_state
                        (packageName left_pad) (packageVersion left_pad))) [right_pad])
      = Inr [right_pad\<lparr>packageLicense := Some (JStr ''MIT'')\<rparr>]"
    by (simp add: demo_defs string_defs client_defs pipeline_defs)
  note a = failed_request_is_marker [OF pre rej refl, of "[right_pad]"]
  note b = failed_request_is_marker [OF pre rej' refl, of "[]"]
  from a b rest show ?thesis
    by (auto simp: string_of_nat.simps left_pad_def split: prod.splits sum.splits)
qed

section \<open>C6: version normalisation\<close>

text \<open>
  C6, as amended. \<^verbatim>\<open>semver\<close> is a parameter, so "strict semantic version" and
  "coercible" are read off its answers. If \<^verbatim>\<open>semver.valid\<close> accepts the specifier, the
  result is the answer of \<^verbatim>\<open>semver.valid\<close>, the version in its canonical spelling; it
  is the specifier itself exactly when \<^verbatim>\<open>semver.valid\<close> hands the specifier back
  unchanged. If \<^verbatim>\<open>semver.valid\<close> rejects it and \<^verbatim>\<open>semver.coerce\<close> finds a version,
  that version is returned. If neither does, the raw specifier is returned. The
  result is never anything but one of these three.
\<close>

theorem version_normalisation:
  "(semver_valid e v = Some s \<and> s \<noteq> [] \<longrightarrow>
      getCleanNpmPackageVersion e v = s \<and> (getCleanNpmPackageVersion e v = v \<longleftrightarrow> s = v))
   \<and> (semver_valid e v = None \<and> semver_coerce e v = Some c \<and> c \<noteq> [] \<longrightarrow>
        getCleanNpmPackageVersion e v = c)
   \<and> (semver_valid e v = None \<and> semver_coerce e v = None \<longrightarrow>
        getCleanNpmPackageVersion e v = v)
   \<and> (getCleanNpmPackageVersion e v = v
        \<or> semver_valid e v = Some (getCleanNpmPackageVersion e v)
        \<or> semver_coerce e v = Some (getCleanNpmPackageVersion e v))"
  by (auto simp: getCleanNpmPackageVersion_def split: option.splits)

text \<open>
  One input for each case, with the sample environment: \<^verbatim>\<open>1.0.0\<close> is returned as it
  is, \<^verbatim>\<open>1.2.3+build.5\<close> is returned as \<^verbatim>\<open>1.2.3\<close>, \<^verbatim>\<open>^1.2.3\<close> is coerced to \<^verbatim>\<open>1.2.3\<close>, and
  \<^verbatim>\<open>latest\<close>, which neither function accepts, passes through.
\<close>

theorem version_normalisation_witness:
  "getCleanNpmPackageVersion (demo_env (reject None)) ''1.0.0'' = ''1.0.0''
   \<and> getCleanNpmPackageVersion (demo_env (reject None)) ''1.2.3+build.5'' = ''1.2.3''
   \<and> getCleanNpmPackageVersion (demo_env (reject None)) ''^1.2.3'' = ''1.2.3''
   \<and> getCleanNpmPackageVersion (demo_env (reject None)) ''latest'' = ''latest''"
proof -
  let ?e = "demo_env (reject None)"
  have a: "semver_valid ?e ''1.0.0'' = Some ''1.0.0''"
    and a': "semver_valid ?e ''1.2.3+build.5'' = Some ''1.2.3''"
    and b: "semver_valid ?e ''^1.2.3'' = None" "semver_coerce ?e ''^1.2.3'' = Some ''1.2.3''"
    and c: "semver_valid ?e ''latest'' = None" "semver_coerce ?e ''latest'' = None"
    by (simp_all add: demo_env_def)
  from version_normalisation [of ?e "''1.0.0''" "''1.0.0''"] a
  have 1: "getCleanNpmPackageVersion ?e ''1.0.0'' = ''1.0.0''" by simp
  from version_normalisation [of ?e "''1.2.3+build.5''" "''1.2.3''"] a'
  have 2: "getCleanNpmPackageVersion ?e ''1.2.3+build.5'' = ''1.2.3''" by simp
  from version_normalisation [of ?e "''^1.2.3''" _ "''1.2.3''"] b
  have 3: "getCleanNpmPackageVersion ?e ''^1.2.3'' = ''1.2.3''" by simp
  from version_normalisation [of ?e "''latest''"] c
  have 4: "getCleanNpmPackageVersion ?e ''latest'' = ''latest''" by simp
  from 1 2 3 4 show ?thesis by simp
qed

text \<open>
  The claim as written says that a strict semantic version is returned unchanged.
  \<^verbatim>\<open>1.2.3+build.5\<close> is one, \<^verbatim>\<open>semver.valid\<close> accepts it, and the result is \<^verbatim>\<open>1.2.3\<close>.
\<close>

theorem version_normalisation_counterexample:
  "semver_valid (demo_env (reject None)) ''1.2.3+build.5'' = Some ''1.2.3''
   \<and> getCleanNpmPackageVersion (demo_env (reject None)) ''1.2.3+build.5'' = ''1.2.3''
   \<and> getCleanNpmPackageVersion (demo_env (reject None)) ''1.2.3+build.5'' \<noteq> ''1.2.3+build.5''"
  by (simp add: demo_env_def getCleanNpmPackageVersion_def)

section \<open>C7: the order of the records\<close>

lemma push_entries_append:
  "push_entries e fn entries acc =
     acc @ map (\<lambda>(name, version).
                 \<lparr>projectName = replace_first (path_extname e fn) fn,
                  packageName = name,
                  packageVersion = getCleanNpmPackageVersion e version,
                  packageLicense = None\<rparr>) entries"
  by (induction entries arbitrary: acc) auto

lemma read_manifests_append:
  "read_manifests e t ms acc = acc @ concat (map (manifest_records e t) ms)"
  by (induction ms arbitrary: acc)
     (auto simp: push_entries_append manifest_records_def split: option.splits)

lemma object_entries_others:
  "filter (\<lambda>p. array_index (fst p) = None) (object_entries ps)
     = filter (\<lambda>p. array_index (fst p) = None) ps"
proof -
  have "filter (\<lambda>p. array_index (fst p) = None)
          (sort_key (\<lambda>p. the (array_index (fst p)))
             (filter (\<lambda>p. array_index (fst p) \<noteq> None) ps)) = []"
    by (auto simp: filter_empty_conv)
  then show ?thesis by (simp add: object_entries_def)
qed

lemma object_entries_indices:
  "sorted (map (\<lambda>p. the (array_index (fst p)))
             (filter (\<lambda>p. array_index (fst p) \<noteq> None) (object_entries ps)))"
proof -
  have a: "filter (\<lambda>p. array_index (fst p) \<noteq> None)
          (sort_key (\<lambda>p. the (array_index (fst p)))
             (filter (\<lambda>p. array_index (fst p) \<noteq> None) ps))
        = sort_key (\<lambda>p. the (array_index (fst p)))
             (filter (\<lambda>p. array_index (fst p) \<noteq> None) ps)"
    by (auto simp: filter_id_conv)
  have b: "filter (\<lambda>p. array_index (fst p) \<noteq> None)
             (filter (\<lambda>p. array_index (fst p) = None) ps) = []"
    by (auto simp: filter_empty_conv)
  show ?thesis
    by (simp only: object_entries_def filter_append a b append_Nil2 sorted_sort_key)
qed

lemma object_entries_plain:
  assumes "list_all (\<lambda>p. array_index (fst p) = None) ps"
  shows "object_entries ps = ps"
proof -
  from assms have "filter (\<lambda>p. array_index (fst p) \<noteq> None) ps = []"
    and "filter (\<lambda>p. array_index (fst p) = None) ps = ps"
    by (simp_all add: list_all_iff filter_empty_conv)
  then show ?thesis by (simp add: object_entries_def)
qed

lemma resolve_all_pointwise:
  "fst (resolve_all e st ps) = Inr ps' \<Longrightarrow>
   list_all2 (\<lambda>d d'. \<exists>s. d' = d\<lparr>packageLicense := Some (JStr s)\<rparr>) ps ps'"
proof (induction ps arbitrary: st ps')
  case Nil
  then show ?case by simp
next
  case (Cons p ps)
  obtain r st1 where rp: "resolve_package e st p = (r, st1)"
    by (cases "resolve_package e st p")
  with Cons.prems obtain p' where r: "r = Inr p'"
    by (cases r) auto
  obtain r2 st2 where ra: "resolve_all e st1 ps = (r2, st2)"
    by (cases "resolve_all e st1 ps")
  with Cons.prems rp r obtain ps2 where r2: "r2 = Inr ps2" and ps': "ps' = p' # ps2"
    by (cases r2) auto
  have "list_all2 (\<lambda>d d'. \<exists>s. d' = d\<lparr>packageLicense := Some (JStr s)\<rparr>) ps ps2"
    using Cons.IH [of st1 ps2] ra r2 by simp
  moreover have "\<exists>s. p' = p\<lparr>packageLicense := Some (JStr s)\<rparr>"
    using resolve_package_string [of e st p p'] rp r by auto
  ultimately show ?case using ps' by simp
qed

lemma resolve_package_requests:
  "\<exists>rs. requests (snd (resolve_package e st p)) = requests st @ rs
        \<and> (rs = [] \<or> map snd rs = [registryUrl (packageName p) (packageVersion p)])"
proof (cases "truthy (cache_read (cache st) (cacheKey (packageName p) (packageVersion p)))
              \<or> is_local (packageVersion p)")
  case True
  then have "requests (snd (fetchLicenseForPackage e st (packageName p) (packageVersion p)))
      = requests st"
    by (simp add: fetch_served_state)
  then show ?thesis by (simp add: resolve_package_state)
next
  case False
  then have "requests (snd (fetchLicenseForPackage e st (packageName p) (packageVersion p)))
      = requests st @ [(clock st + 1001, registryUrl (packageName p) (packageVersion p))]"
    by (simp add: fetch_miss_requests)
  then show ?thesis by (simp add: resolve_package_state)
qed

lemma resolve_all_requests:
  "\<exists>rs. requests (snd (resolve_all e st ps)) = requests st @ rs
        \<and> subseq (map snd rs) (map (\<lambda>d. registryUrl (packageName d) (packageVersion d)) ps)"
proof (induction ps arbitrary: st)
  case Nil
  show ?case by simp
next
  case (Cons p ps)
  let ?url = "\<lambda>d. registryUrl (packageName d) (packageVersion d)"
  obtain r st1 where rp: "resolve_package e st p = (r, st1)"
    by (cases "resolve_package e st p")
  obtain r0 where r0: "requests st1 = requests st @ r0" "r0 = [] \<or> map snd r0 = [?url p]"
    using resolve_package_requests [of e st p] rp by auto
  show ?case
  proof (cases r)
    case (Inl err)
    with rp have "snd (resolve_all e st (p # ps)) = st1" by simp
    moreover have "subseq (map snd r0) (map ?url (p # ps))"
      using r0(2) by auto
    ultimately show ?thesis using r0 by auto
  next
    case (Inr p')
    obtain rs where rs: "requests (snd (resolve_all e st1 ps)) = requests st1 @ rs"
        "subseq (map snd rs) (map ?url ps)"
      using Cons.IH [of st1] by auto
    from Inr rp have "snd (resolve_all e st (p # ps)) = snd (resolve_all e st1 ps)"
      by (auto split: prod.splits sum.splits)
    with rs r0 have "requests (snd (resolve_all e st (p # ps))) = requests st @ (r0 @ rs)"
      by simp
    moreover have "subseq (map snd (r0 @ rs)) (map ?url (p # ps))"
      using r0(2) rs(2) by auto
    ultimately show ?thesis by blast
  qed
qed

lemma object_entries_index_part:
  "filter (\<lambda>p. array_index (fst p) \<noteq> None) (object_entries ps)
     = sort_key (\<lambda>p. the (array_index (fst p))) (filter (\<lambda>p. array_index (fst p) \<noteq> None) ps)"
proof -
  have a: "filter (\<lambda>p. array_index (fst p) \<noteq> None)
          (sort_key (\<lambda>p. the (array_index (fst p)))
             (filter (\<lambda>p. array_index (fst p) \<noteq> None) ps))
        = sort_key (\<lambda>p. the (array_index (fst p)))
             (filter (\<lambda>p. array_index (fst p) \<noteq> None) ps)"
    by (auto simp: filter_id_conv)
  have b: "filter (\<lambda>p. array_index (fst p) \<noteq> None)
             (filter (\<lambda>p. array_index (fst p) = None) ps) = []"
    by (auto simp: filter_empty_conv)
  show ?thesis
    by (simp only: object_entries_def filter_append a b append_Nil2)
qed

lemma object_entries_split:
  "object_entries ps
     = filter (\<lambda>p. array_index (fst p) \<noteq> None) (object_entries ps)
       @ filter (\<lambda>p. array_index (fst p) = None) ps"
  unfolding object_entries_index_part by (simp only: object_entries_def)

lemma object_entries_mset: "mset (object_entries ps) = mset ps"
proof -
  have "mset (object_entries ps)
      = mset (filter (\<lambda>p. array_index (fst p) \<noteq> None) ps)
        + mset (filter (\<lambda>p. array_index (fst p) = None) ps)"
    by (simp add: object_entries_def)
  also have "\<dots> = mset ps"
    by (induction ps) auto
  finally show ?thesis .
qed

text \<open>
  C7, as amended. The extracted sequence is the manifests' records one manifest
  after the other, in the order of the directory listing (files that do not end in
  \<^verbatim>\<open>.json\<close> left out). Within a manifest the order is that of \<^verbatim>\<open>Object.entries\<close>, which
  keeps every entry and lists the entries whose name is an array index first, in
  ascending numeric order, and all other entries after them in declaration order;
  so when no name is an array index the order is the declaration order. Resolution
  returns, when it returns records, one record for each extracted one, in the same
  order, the license filled in; and the requests it sends are a subsequence of the
  records' URLs in that order, so at most one request for a record and none out of
  turn.
\<close>

theorem records_in_order:
  "getDependencies e t dir
     = concat (map (manifest_records e t) (filter (\<lambda>m. endsWith (filename m) ''.json'') dir))
   \<and> object_entries deps
       = filter (\<lambda>p. array_index (fst p) \<noteq> None) (object_entries deps)
         @ filter (\<lambda>p. array_index (fst p) = None) deps
   \<and> sorted (map (\<lambda>p. the (array_index (fst p)))
               (filter (\<lambda>p. array_index (fst p) \<noteq> None) (object_entries deps)))
   \<and> mset (object_entries deps) = mset deps
   \<and> (list_all (\<lambda>p. array_index (fst p) = None) deps \<longrightarrow> object_entries deps = deps)
   \<and> (fst (resolve_all e st pkgs) = Inr pkgs' \<longrightarrow>
        list_all2 (\<lambda>d d'. \<exists>s. d' = d\<lparr>packageLicense := Some (JStr s)\<rparr>) pkgs pkgs')
   \<and> subseq (map snd (drop (length (requests st)) (requests (snd (resolve_all e st pkgs)))))
        (map (\<lambda>d. registryUrl (packageName d) (packageVersion d)) pkgs)"
proof -
  obtain rs where "requests (snd (resolve_all e st pkgs)) = requests st @ rs"
    and "subseq (map snd rs) (map (\<lambda>d. registryUrl (packageName d) (packageVersion d)) pkgs)"
    using resolve_all_requests [of e st pkgs] by blast
  then have "subseq (map snd (drop (length (requests st))
                 (requests (snd (resolve_all e st pkgs)))))
      (map (\<lambda>d. registryUrl (packageName d) (packageVersion d)) pkgs)"
    by simp
  moreover have "getDependencies e t dir
      = concat (map (manifest_records e t) (filter (\<lambda>m. endsWith (filename m) ''.json'') dir))"
    by (simp add: getDependencies_def read_manifests_append)
  ultimately show ?thesis
    using object_entries_split [of deps] object_entries_indices [of deps]
      object_entries_mset [of deps]
      object_entries_plain [of deps] resolve_all_pointwise [of e st pkgs pkgs']
    by blast
qed

text \<open>
  The sample directory: \<^verbatim>\<open>proj-a\<close>/\<^verbatim>\<open>left-pad\<close> comes before \<^verbatim>\<open>proj-b\<close>/\<^verbatim>\<open>right-pad\<close>, in
  the extracted sequence, in the resolved one and in the requests. And a dependency
  object that declares \<^verbatim>\<open>left-pad\<close>, \<^verbatim>\<open>10\<close>, \<^verbatim>\<open>right-pad\<close>, \<^verbatim>\<open>7\<close> is listed as \<^verbatim>\<open>7\<close>, \<^verbatim>\<open>10\<close>,
  \<^verbatim>\<open>left-pad\<close>, \<^verbatim>\<open>right-pad\<close>.
\<close>

theorem records_in_order_witness:
  "getDependencies (demo_env (answer (JStr ''MIT''))) Dependencies demo_dir
     = [left_pad, right_pad]
   \<and> object_entries [(''left-pad'', ''1.0.0''), (''right-pad'', ''2.0.0'')]
     = [(''left-pad'', ''1.0.0''), (''right-pad'', ''2.0.0'')]
   \<and> object_entries
       [(''left-pad'', ''1.0.0''), (''10'', ''1.0.0''), (''right-pad'', ''2.0.0''), (''7'', ''1.0.0'')]
     = [(''7'', ''1.0.0''), (''10'', ''1.0.0'')]
       @ [(''left-pad'', ''1.0.0''), (''right-pad'', ''2.0.0'')]
   \<and> fst (resolve_all (demo_env (answer (JStr ''MIT''))) init_state [left_pad, right_pad])
     = Inr [left_pad\<lparr>packageLicense := Some (JStr ''MIT'')\<rparr>,
            right_pad\<lparr>packageLicense := Some (JStr ''MIT'')\<rparr>]
   \<and> list_all2 (\<lambda>d d'. \<exists>s. d' = d\<lparr>packageLicense := Some (JStr s)\<rparr>)
        [left_pad, right_pad]
        [left_pad\<lparr>packageLicense := Some (JStr ''MIT'')\<rparr>,
         right_pad\<lparr>packageLicense := Some (JStr ''MIT'')\<rparr>]"
proof -
  let ?e = "demo_env (answer (JStr ''MIT''))"
  let ?deps = "[(''left-pad'', ''1.0.0''), (''right-pad'', ''2.0.0'')]"
  let ?mixed = "[(''left-pad'', ''1.0.0''), (''10'', ''1.0.0''), (''right-pad'', ''2.0.0''),
                 (''7'', ''1.0.0'')]"
  let ?out = "[left_pad\<lparr>packageLicense := Some (JStr ''MIT'')\<rparr>,
               right_pad\<lparr>packageLicense := Some (JStr ''MIT'')\<rparr>]"
  have plain: "list_all (\<lambda>p. array_index (fst p) = None) ?deps"
    by (simp add: extraction_defs)
  have run: "fst (resolve_all ?e init_state [left_pad, right_pad]) = Inr ?out"
    by (simp add: demo_defs string_defs client_defs pipeline_defs)
  note order = records_in_order
    [of ?e Dependencies demo_dir ?deps init_state "[left_pad, right_pad]" ?out]
  from order plain have entries: "object_entries ?deps = ?deps"
    by blast
  from order run
  have same: "list_all2 (\<lambda>d d'. \<exists>s. d' = d\<lparr>packageLicense := Some (JStr s)\<rparr>)
      [left_pad, right_pad] ?out"
    by blast
  have idx: "filter (\<lambda>p. array_index (fst p) \<noteq> None) (object_entries ?mixed)
      = [(''7'', ''1.0.0''), (''10'', ''1.0.0'')]"
    and rest: "filter (\<lambda>p. array_index (fst p) = None) ?mixed
      = [(''left-pad'', ''1.0.0''), (''right-pad'', ''2.0.0'')]"
    by (simp_all add: extraction_defs)
  from records_in_order [of ?e Dependencies demo_dir ?mixed init_state "[]" "[]"]
  have "object_entries ?mixed
      = filter (\<lambda>p. array_index (fst p) \<noteq> None) (object_entries ?mixed)
        @ filter (\<lambda>p. array_index (fst p) = None) ?mixed"
    by blast
  with idx rest have mixed: "object_entries ?mixed
      = [(''7'', ''1.0.0''), (''10'', ''1.0.0'')]
        @ [(''left-pad'', ''1.0.0''), (''right-pad'', ''2.0.0'')]"
    by (simp only:)
  have "getDependencies ?e Dependencies demo_dir = [left_pad, right_pad]"
    by (rule demo_getDependencies)
  with entries mixed run same show ?thesis
    by blast
qed

text \<open>
  The claim as written says declaration order within a manifest. A manifest that
  declares \<^verbatim>\<open>left-pad\<close> and then a package named \<^verbatim>\<open>7\<close> yields the record of \<^verbatim>\<open>7\<close> first.
\<close>

theorem records_in_order_counterexample:
  "map packageName
     (getDependencies (demo_env (reject None)) Dependencies
        [one_manifest ''proj-a.json'' [(''left-pad'', ''1.0.0''), (''7'', ''1.0.0'')]])
   = [''7'', ''left-pad'']"
  by (simp add: demo_defs extraction_defs string_defs)

section \<open>C8: the delay before a request\<close>

lemma successively_nth:
  "successively P xs \<Longrightarrow> Suc i < length xs \<Longrightarrow> P (xs ! i) (xs ! Suc i)"
proof (induction P xs arbitrary: i rule: successively.induct)
  case (3 P x y xs)
  then show ?case by (cases i) auto
qed auto

lemma spaced_snoc:
  fixes rs :: "(nat \<times> string) list"
  assumes "successively (\<lambda>a b. fst a + 1001 \<le> fst b) rs"
      and "list_all (\<lambda>r. fst r \<le> c) rs"
  shows "successively (\<lambda>a b. fst a + 1001 \<le> fst b) (rs @ [(c + 1001, u)])"
    and "list_all (\<lambda>r. fst r \<le> c + 1001 + d) (rs @ [(c + 1001, u)])"
proof -
  have "fst (last rs) \<le> c" if "rs \<noteq> []"
    using that assms(2) by (simp add: list_all_iff)
  with assms(1) show "successively (\<lambda>a b. fst a + 1001 \<le> fst b) (rs @ [(c + 1001, u)])"
    by (auto simp: successively_append_iff)
  from assms(2) show "list_all (\<lambda>r. fst r \<le> c + 1001 + d) (rs @ [(c + 1001, u)])"
    by (auto simp: list_all_iff)
qed

lemma spaced_fetch:
  assumes "spaced st"
  shows "spaced (snd (fetchLicenseForPackage e st n v))"
proof (cases "truthy (cache_read (cache st) (cacheKey n v)) \<or> is_local v")
  case True
  then have "clock (snd (fetchLicenseForPackage e st n v)) = clock st
      \<and> requests (snd (fetchLicenseForPackage e st n v)) = requests st"
    by (rule fetch_served_state)
  with assms show ?thesis by (simp add: spaced_def)
next
  case False
  then have miss: "\<not> truthy (cache_read (cache st) (cacheKey n v))" "\<not> is_local v"
    by simp_all
  from assms have "successively (\<lambda>a b. fst a + 1001 \<le> fst b) (requests st)"
    and "list_all (\<lambda>r. fst r \<le> clock st) (requests st)"
    by (simp_all add: spaced_def)
  then show ?thesis
    unfolding spaced_def fetch_miss_requests [OF miss] fetch_miss_clock [OF miss]
    by (intro conjI spaced_snoc)
qed

lemma spaced_files: "spaced st \<Longrightarrow> spaced (st\<lparr>files := f\<rparr>)"
  by (simp add: spaced_def)

text \<open>
  C8. Time is the model's clock: \<open>sleep\<close> moves it on by its argument, a request by
  the time the request takes. A lookup that is neither a cache hit nor a skip sends
  its request when the clock shows 1001 ms more than at its start. A cache hit and
  a skip leave the clock and the request log as they are. Spacing is kept by every
  lookup, so in a whole process, started with an empty log, any two consecutive
  requests are at least 1001 ms apart.
\<close>

theorem rate_limit:
  "(\<not> truthy (cache_read (cache st) (cacheKey n v)) \<and> \<not> is_local v \<longrightarrow>
      requests (snd (fetchLicenseForPackage e st n v))
        = requests st @ [(clock st + 1001, registryUrl n v)])
   \<and> (truthy (cache_read (cache st) (cacheKey n v)) \<or> is_local v \<longrightarrow>
      clock (snd (fetchLicenseForPackage e st n v)) = clock st
      \<and> requests (snd (fetchLicenseForPackage e st n v)) = requests st)
   \<and> (spaced st \<longrightarrow> spaced (snd (fetchLicenseForPackage e st n v)))
   \<and> (Suc i < length (requests (snd (init e init_state dir))) \<longrightarrow>
      fst (requests (snd (init e init_state dir)) ! i) + 1001
        \<le> fst (requests (snd (init e init_state dir)) ! Suc i))"
proof (intro conjI impI)
  assume "\<not> truthy (cache_read (cache st) (cacheKey n v)) \<and> \<not> is_local v"
  then show "requests (snd (fetchLicenseForPackage e st n v))
      = requests st @ [(clock st + 1001, registryUrl n v)]"
    by (simp add: fetch_miss_requests)
next
  assume "truthy (cache_read (cache st) (cacheKey n v)) \<or> is_local v"
  then show "clock (snd (fetchLicenseForPackage e st n v)) = clock st"
    and "requests (snd (fetchLicenseForPackage e st n v)) = requests st"
    by (simp_all add: fetch_served_state)
next
  assume "spaced st"
  then show "spaced (snd (fetchLicenseForPackage e st n v))"
    by (rule spaced_fetch)
next
  assume i: "Suc i < length (requests (snd (init e init_state dir)))"
  have "spaced init_state"
    by (simp add: spaced_def init_state_def)
  then have "spaced (snd (init e init_state dir))"
    by (rule init_invariant [where P = spaced, rotated 2])
       (simp_all add: spaced_fetch spaced_files)
  then have "successively (\<lambda>a b. fst a + 1001 \<le> fst b) (requests (snd (init e init_state dir)))"
    by (simp add: spaced_def)
  from successively_nth [OF this i]
  show "fst (requests (snd (init e init_state dir)) ! i) + 1001
      \<le> fst (requests (snd (init e init_state dir)) ! Suc i)" .
qed

text \<open>
  From the empty state, the lookup of \<^verbatim>\<open>left-pad@1.0.0\<close> sends its request at 1001 ms,
  a \<^verbatim>\<open>file:\<close> specifier leaves clock and log alone, and the two requests of the sample
  run are sent at 1001 ms and 2022 ms.
\<close>

theorem rate_limit_witness:
  "requests (snd (fetchLicenseForPackage (demo_env (answer (JStr ''MIT''))) init_state
       ''left-pad'' ''1.0.0'')) = [(1001, ''https://registry.npmjs.org/left-pad/1.0.0'')]
   \<and> clock (snd (fetchLicenseForPackage (demo_env (answer (JStr ''MIT''))) init_state
       ''foo'' ''file:../foo'')) = 0
   \<and> requests (snd (fetchLicenseForPackage (demo_env (answer (JStr ''MIT''))) init_state
       ''foo'' ''file:../foo'')) = []
   \<and> spaced (snd (fetchLicenseForPackage (demo_env (answer (JStr ''MIT''))) init_state
       ''left-pad'' ''1.0.0''))
   \<and> requests (snd (init (demo_env (answer (JStr ''MIT''))) init_state demo_dir))
       = [(1001, ''https://registry.npmjs.org/left-pad/1.0.0''),
          (2022, ''https://registry.npmjs.org/right-pad/2.0.0'')]
   \<and> fst (requests (snd (init (demo_env (answer (JStr ''MIT''))) init_state demo_dir)) ! 0) + 1001
       \<le> fst (requests (snd (init (demo_env (answer (JStr ''MIT''))) init_state demo_dir)) ! Suc 0)"
proof -
  let ?e = "demo_env (answer (JStr ''MIT''))"
  have miss: "\<not> truthy (cache_read (cache init_state) (cacheKey ''left-pad'' ''1.0.0''))
      \<and> \<not> is_local ''1.0.0''"
    by (simp add: demo_defs string_defs client_defs)
  have loc: "is_local ''file:../foo''"
    by (simp add: string_defs is_local_def)
  have sp: "spaced init_state"
    by (simp add: spaced_def init_state_def)
  have run: "requests (snd (init ?e init_state demo_dir))
      = [(1001, ''https://registry.npmjs.org/left-pad/1.0.0''),
         (2022, ''https://registry.npmjs.org/right-pad/2.0.0'')]"
    by (simp add: demo_defs extraction_defs string_defs client_defs pipeline_defs)
  from rate_limit [of init_state "''left-pad''" "''1.0.0''" ?e 0 demo_dir] miss sp run
  have a: "requests (snd (fetchLicenseForPackage ?e init_state ''left-pad'' ''1.0.0''))
        = requests init_state @ [(clock init_state + 1001, registryUrl ''left-pad'' ''1.0.0'')]"
    and b: "spaced (snd (fetchLicenseForPackage ?e init_state ''left-pad'' ''1.0.0''))"
    and c: "fst (requests (snd (init ?e init_state demo_dir)) ! 0) + 1001
        \<le> fst (requests (snd (init ?e init_state demo_dir)) ! Suc 0)"
    by simp_all
  from rate_limit [of init_state "''foo''" "''file:../foo''" ?e] loc
  have d: "clock (snd (fetchLicenseForPackage ?e init_state ''foo'' ''file:../foo''))
        = clock init_state
      \<and> requests (snd (fetchLicenseForPackage ?e init_state ''foo'' ''file:../foo''))
        = requests init_state"
    by simp
  from a b c d run show ?thesis
    by (simp add: init_state_def registryUrl_def)
qed

section \<open>C9: the CSV of an empty report\<close>

text \<open>
  C9. \<open>toCsv\<close> throws a TypeError on the empty sequence and returns a string on every
  other one. When extraction yields no record, \<open>checkDependencies\<close> ends with that
  TypeError and leaves the state as it was: no file is written.
\<close>

theorem empty_report_throws:
  "toCsv [] = Inl TypeError
   \<and> (data \<noteq> [] \<longrightarrow> (\<exists>csv. toCsv data = Inr csv))
   \<and> (getDependencies e t dir = [] \<longrightarrow> checkDependencies e st t dir = (Inl TypeError, st))"
  by (auto simp: toCsv_def checkDependencies_def writeCsvFile_def split: list.splits)

text \<open>
  The sample directory has no \<^verbatim>\<open>devDependencies\<close> section in any manifest, so the
  run for that kind throws. One record is enough for a CSV.
\<close>

theorem empty_report_throws_witness:
  "getDependencies (demo_env (reject None)) DevDependencies demo_dir = []
   \<and> checkDependencies (demo_env (reject None)) init_state DevDependencies demo_dir
       = (Inl TypeError, init_state)
   \<and> (\<exists>csv. toCsv [left_pad] = Inr csv)"
proof -
  have none: "getDependencies (demo_env (reject None)) DevDependencies demo_dir = []"
    by (simp add: demo_defs extraction_defs string_defs)
  have ne: "[left_pad] \<noteq> []" by simp
  from empty_report_throws [of "[left_pad]" "demo_env (reject None)" DevDependencies demo_dir init_state]
    none ne
  show ?thesis by blast
qed

section \<open>C10: the values in the cache\<close>

lemma cache_truthy_update: "cache_truthy c \<Longrightarrow> truthy l \<Longrightarrow> cache_truthy (c(k \<mapsto> l))"
  by (simp add: cache_truthy_def)

lemma cache_truthy_fetch:
  assumes "cache_truthy (cache st)"
  shows "cache_truthy (cache (snd (fetchLicenseForPackage e st n v)))"
proof (cases rule: fetch_cases [where st = st and n = n and v = v and e = e])
  case hit
  with assms show ?thesis by (simp add: fetch_hit)
next
  case skip
  with assms show ?thesis by (simp add: fetch_skip cache_truthy_update)
next
  case (fulfilled l)
  from fulfilled(3) have "truthy l" by (rule license_of_outcome_truthy)
  with assms fulfilled show ?thesis by (simp add: fetch_fulfilled cache_truthy_update)
next
  case (failed err)
  with assms show ?thesis by (simp add: fetch_failed)
qed

text \<open>
  C10, as amended. Every value in the cache is truthy: a lookup keeps it so, the
  cache of a whole process that starts empty has it, and then the truthiness test
  of the lookup finds every stored entry. (The values need not be strings: the
  client stores a structured license as the object it is.)
\<close>

theorem cache_values_truthy:
  "(cache_truthy (cache st) \<longrightarrow>
      cache_truthy (cache (snd (fetchLicenseForPackage e st n v))))
   \<and> cache_truthy (cache (snd (init e init_state dir)))
   \<and> (cache_truthy (cache st) \<and> cache st k = Some l \<longrightarrow>
        truthy (cache_read (cache st) k) \<and> cache_read (cache st) k = l)"
proof (intro conjI impI)
  assume "cache_truthy (cache st)"
  then show "cache_truthy (cache (snd (fetchLicenseForPackage e st n v)))"
    by (rule cache_truthy_fetch)
next
  have "cache_truthy (cache init_state)"
    by (simp add: cache_truthy_def init_state_def)
  then show "cache_truthy (cache (snd (init e init_state dir)))"
    by (rule init_invariant [where P = "\<lambda>st. cache_truthy (cache st)", rotated 2])
       (simp_all add: cache_truthy_fetch)
next
  assume "cache_truthy (cache st) \<and> cache st k = Some l"
  then show "truthy (cache_read (cache st) k)" "cache_read (cache st) k = l"
    by (auto simp: cache_truthy_def cache_read_def)
qed

text \<open>
  After one lookup from the empty cache the invariant holds, and the entry just
  stored is found by the truthiness test.
\<close>

theorem cache_values_truthy_witness:
  "cache_truthy (cache init_state)
   \<and> cache_truthy (cache (snd (fetchLicenseForPackage (demo_env (answer (JStr ''MIT'')))
         init_state ''left-pad'' ''1.0.0'')))
   \<and> cache (snd (fetchLicenseForPackage (demo_env (answer (JStr ''MIT'')))
         init_state ''left-pad'' ''1.0.0'')) ''left-pad@1.0.0'' = Some (JStr ''MIT'')
   \<and> truthy (cache_read (cache (snd (fetchLicenseForPackage (demo_env (answer (JStr ''MIT'')))
         init_state ''left-pad'' ''1.0.0''))) ''left-pad@1.0.0'')"
proof -
  let ?e = "demo_env (answer (JStr ''MIT''))"
  let ?st = "snd (fetchLicenseForPackage ?e init_state ''left-pad'' ''1.0.0'')"
  have 0: "cache_truthy (cache init_state)"
    by (simp add: cache_truthy_def init_state_def)
  have 1: "cache ?st ''left-pad@1.0.0'' = Some (JStr ''MIT'')"
    by (simp add: demo_defs string_defs client_defs)
  from cache_values_truthy [of init_state ?e "''left-pad''" "''1.0.0''"] 0
  have 2: "cache_truthy (cache ?st)" by simp
  from cache_values_truthy [of ?st _ _ _ _ "''left-pad@1.0.0''" "JStr ''MIT''"] 1 2
  have "truthy (cache_read (cache ?st) ''left-pad@1.0.0'')" by simp
  with 0 1 2 show ?thesis by simp
qed

text \<open>
  The claim as written says that every stored value is a string. A structured
  license is stored as the object the registry sent.
\<close>

theorem cache_values_counterexample:
  "cache (snd (fetchLicenseForPackage (demo_env (answer (JObj [(''type'', JStr ''MIT'')])))
        init_state ''left-pad'' ''1.0.0'')) ''left-pad@1.0.0''
     = Some (JObj [(''type'', JStr ''MIT'')])"
  by (simp add: demo_defs string_defs client_defs)

end
